theory Spec2Isabelle
  imports Main
begin

section \<open>The branch structure auditor of config/settings.py\<close>

text \<open>
  The program is lines 1 to 72 of \<^verbatim>\<open>src/config/settings.py\<close>: the module-level
  construction of \<^verbatim>\<open>REQUIRED_STRUCTURE\<close>, and the functions \<^verbatim>\<open>run\<close>,
  \<^verbatim>\<open>check_branch\<close> and \<^verbatim>\<open>main\<close>. (The lines after 72 are a fragment of a package
  description, not Python; they are no part of the model.)

  Python raises; the model returns the exception as a value, together with the state
  the program had reached when it was raised.
\<close>

datatype error =
    CalledProcessError string nat   \<comment> \<open>subprocess.check_output: the command, its exit status\<close>
  | UnicodeDecodeError              \<comment> \<open>bytes.decode\<close>
  | OSError string                  \<comment> \<open>os.makedirs, open: the path\<close>
  | KeyError string                 \<comment> \<open>dict subscript\<close>

subsection \<open>Strings\<close>

text \<open>
  \<^verbatim>\<open>str.isspace\<close> on the code points below 256, \<^verbatim>\<open>str.strip()\<close>,
  \<^verbatim>\<open>str.split(sep)\<close> for a one-character separator, \<^verbatim>\<open>str.replace("*", "")\<close> and
  the substring test \<^verbatim>\<open>x in s\<close>.
\<close>

definition newline :: char where
  "newline = CHR 0x0A"

definition isspace :: "char \<Rightarrow> bool" where
  "isspace c = (of_char c \<in> {9, 10, 11, 12, 13, 28, 29, 30, 31, 32, 133, 160 :: nat})"

definition strip :: "string \<Rightarrow> string" where
  "strip s = rev (dropWhile isspace (rev (dropWhile isspace s)))"

fun split_on :: "char \<Rightarrow> string \<Rightarrow> string list" where
  "split_on sep [] = [[]]"
| "split_on sep (c # cs) =
     (if c = sep then [] # split_on sep cs
      else (case split_on sep cs of
              [] \<Rightarrow> [[c]]
            | w # ws \<Rightarrow> (c # w) # ws))"

definition remove_stars :: "string \<Rightarrow> string" where
  "remove_stars b = filter (\<lambda>c. c \<noteq> CHR ''*'') b"

fun startswith :: "string \<Rightarrow> string \<Rightarrow> bool" where
  "startswith s [] = True"
| "startswith [] (p # ps) = False"
| "startswith (c # cs) (p # ps) = (c = p \<and> startswith cs ps)"

fun contains :: "string \<Rightarrow> string \<Rightarrow> bool" where
  "contains [] x = (x = [])"
| "contains (c # cs) x = (startswith (c # cs) x \<or> contains cs x)"

subsection \<open>The manifest\<close>

text \<open>
  A Python dict keeps its keys in insertion order; the manifest is an association
  list in that order. Lines 5 to 16 are the literal, lines 21 to 27 the loop that
  appends the files of each magician.
\<close>

type_synonym "structure" = "(string \<times> string list) list"

definition base_structure :: "structure" where
  "base_structure =
     [(''orchestration'', [''base_magician.py'', ''router.py'']),
      (''resources/models'', []),
      (''resources/services'', []),
      (''lifecycle'', []),
      (''api'', []),
      (''config'', [''settings.py'']),
      (''tests'', [])]"

definition MAGICIANS :: "string list" where
  "MAGICIANS = [''job'', ''business'', ''developer'']"

text \<open>\<^verbatim>\<open>d[key].append(x)\<close>: a KeyError when the key is absent.\<close>

fun append_to :: "string \<Rightarrow> string \<Rightarrow> structure \<Rightarrow> error + structure" where
  "append_to key x [] = Inl (KeyError key)"
| "append_to key x ((k, v) # d) =
     (if k = key then Inr ((k, v @ [x]) # d)
      else (case append_to key x d of
              Inl e \<Rightarrow> Inl e
            | Inr d' \<Rightarrow> Inr ((k, v) # d')))"

definition and_then :: "error + 'a \<Rightarrow> ('a \<Rightarrow> error + 'b) \<Rightarrow> error + 'b" where
  "and_then r f = (case r of Inl e \<Rightarrow> Inl e | Inr x \<Rightarrow> f x)"

definition add_magician :: "string \<Rightarrow> structure \<Rightarrow> error + structure" where
  "add_magician m d =
     and_then (append_to ''orchestration'' (m @ ''_magician.py'') d) (\<lambda>d.
     and_then (append_to ''lifecycle'' (''vacuum_'' @ m @ ''_data.py'') d) (\<lambda>d.
     and_then (append_to ''lifecycle'' (''retrain_'' @ m @ ''.py'') d) (\<lambda>d.
     and_then (append_to ''api'' (''routes_'' @ m @ ''.py'') d) (\<lambda>d.
     and_then (append_to ''tests'' (''test_'' @ m @ ''_api.py'') d) (\<lambda>d.
     append_to ''tests'' (''test_'' @ m @ ''_magician.py'') d)))))"

fun add_magicians :: "string list \<Rightarrow> structure \<Rightarrow> error + structure" where
  "add_magicians [] d = Inr d"
| "add_magicians (m # ms) d = and_then (add_magician m d) (add_magicians ms)"

definition build_structure :: "string list \<Rightarrow> error + structure" where
  "build_structure magicians = add_magicians magicians base_structure"

subsection \<open>The working tree\<close>

text \<open>
  The working directory is a tree of nodes addressed by the components of a relative
  path: \<^verbatim>\<open>a/b\<close> is \<open>[''a'', ''b'']\<close>, and \<open>[]\<close> is the working directory itself.
  \<^verbatim>\<open>os.path.exists\<close>, \<^verbatim>\<open>os.makedirs(_, exist_ok=True)\<close> and
  \<^verbatim>\<open>open(_, "w")\<close> followed by \<^verbatim>\<open>write\<close> are modelled on it. A path is taken
  component by component as it is spelled: symbolic links, \<^verbatim>\<open>.\<close>, \<^verbatim>\<open>..\<close>, permissions
  and a full disk are outside the model.
\<close>

datatype node = Dir | File string

type_synonym fs = "string list \<Rightarrow> node option"

definition path_of :: "string \<Rightarrow> string list" where
  "path_of p = split_on CHR ''/'' p"

definition os_path_exists :: "fs \<Rightarrow> string \<Rightarrow> bool" where
  "os_path_exists t p = (t (path_of p) \<noteq> None)"

text \<open>\<^verbatim>\<open>posixpath.join\<close> of two parts.\<close>

definition os_path_join :: "string \<Rightarrow> string \<Rightarrow> string" where
  "os_path_join a b =
     (if startswith b ''/'' then b
      else if a = [] \<or> last a = CHR ''/'' then a @ b
      else a @ ''/'' @ b)"

text \<open>
  \<^verbatim>\<open>os.makedirs(name, exist_ok=True)\<close> makes the missing directories from the
  outermost inwards; it raises when a component is a file, leaving the directories it
  has made.
\<close>

fun makedirs_from :: "string \<Rightarrow> string list \<Rightarrow> string list \<Rightarrow> fs \<Rightarrow> (error + unit) \<times> fs" where
  "makedirs_from name pre [] t = (Inr (), t)"
| "makedirs_from name pre (c # cs) t =
     (case t (pre @ [c]) of
        Some Dir \<Rightarrow> makedirs_from name (pre @ [c]) cs t
      | Some (File x) \<Rightarrow> (Inl (OSError name), t)
      | None \<Rightarrow> makedirs_from name (pre @ [c]) cs (t(pre @ [c] \<mapsto> Dir)))"

definition os_makedirs :: "string \<Rightarrow> fs \<Rightarrow> (error + unit) \<times> fs" where
  "os_makedirs name t = makedirs_from name [] (path_of name) t"

definition is_dir :: "fs \<Rightarrow> string list \<Rightarrow> bool" where
  "is_dir t p = (p = [] \<or> t p = Some Dir)"

text \<open>
  \<^verbatim>\<open>with open(path, "w") as fp: fp.write(text)\<close>: the parent must be a directory
  and the path must not be one.
\<close>

definition write_file :: "string \<Rightarrow> string \<Rightarrow> fs \<Rightarrow> (error + unit) \<times> fs" where
  "write_file path text t =
     (if is_dir t (butlast (path_of path)) \<and> t (path_of path) \<noteq> Some Dir
      then (Inr (), t(path_of path \<mapsto> File text))
      else (Inl (OSError path), t))"

subsection \<open>The state of the program\<close>

text \<open>
  The two module globals, the working tree, whatever the version-control tool keeps
  beside it (\<open>vcs\<close>), what has been printed (one entry for each \<^verbatim>\<open>print\<close>), and the
  commands that \<^verbatim>\<open>run\<close> has executed with their exit statuses.
\<close>

record 'g state =
  REQUIRED_STRUCTURE :: "structure"
  AUTO_FIX :: bool
  vcs :: 'g
  worktree :: fs
  stdout :: "string list"
  invocations :: "(string \<times> nat) list"

text \<open>
  The shell is outside the source: a command acts on the repository and the working
  tree and gives an exit status and its output, \<open>None\<close> when the bytes are not text.
\<close>

type_synonym 'g shell = "string \<Rightarrow> 'g \<Rightarrow> fs \<Rightarrow> nat \<times> string option \<times> 'g \<times> fs"

definition print_line :: "string \<Rightarrow> 'g state \<Rightarrow> 'g state" where
  "print_line x s = s\<lparr>stdout := stdout s @ [x]\<rparr>"

text \<open>Lines 31 and 32.\<close>

definition run :: "'g shell \<Rightarrow> string \<Rightarrow> 'g state \<Rightarrow> (error + string) \<times> 'g state" where
  "run sh cmd s =
     (case sh cmd (vcs s) (worktree s) of
        (status, out, g, t) \<Rightarrow>
          (let s' = s\<lparr>vcs := g, worktree := t, invocations := invocations s @ [(cmd, status)]\<rparr>
           in if status \<noteq> 0 then (Inl (CalledProcessError cmd status), s')
              else (case out of
                      None \<Rightarrow> (Inl UnicodeDecodeError, s')
                    | Some text \<Rightarrow> (Inr (strip text), s'))))"

subsection \<open>Auditing one branch\<close>

definition placeholder :: "string \<Rightarrow> string" where
  "placeholder f = ''# Auto-generated placeholder for '' @ f @ [newline]"

definition missing_folder :: "string \<Rightarrow> string" where
  "missing_folder folder = ''Missing folder: '' @ folder"

definition missing_file :: "string \<Rightarrow> string" where
  "missing_file path = ''Missing file: '' @ path"

text \<open>The inner loop, lines 47 to 53.\<close>

fun check_files :: "string \<Rightarrow> string list \<Rightarrow> string list \<Rightarrow> 'g state \<Rightarrow> (error + string list) \<times> 'g state" where
  "check_files folder [] missing s = (Inr missing, s)"
| "check_files folder (f # files) missing s =
     (let path = os_path_join folder f in
      if \<not> os_path_exists (worktree s) path then
        (let missing' = missing @ [missing_file path] in
         if AUTO_FIX s then
           (case write_file path (placeholder f) (worktree s) of
              (Inl e, t) \<Rightarrow> (Inl e, s\<lparr>worktree := t\<rparr>)
            | (Inr u, t) \<Rightarrow> check_files folder files missing' (s\<lparr>worktree := t\<rparr>))
         else check_files folder files missing' s)
      else check_files folder files missing s)"

text \<open>The outer loop, lines 40 to 53, over the items of the manifest.\<close>

fun check_folders :: "structure \<Rightarrow> string list \<Rightarrow> 'g state \<Rightarrow> (error + string list) \<times> 'g state" where
  "check_folders [] missing s = (Inr missing, s)"
| "check_folders ((folder, files) # items) missing s =
     (if \<not> os_path_exists (worktree s) folder then
        (let missing' = missing @ [missing_folder folder] in
         if AUTO_FIX s then
           (case os_makedirs folder (worktree s) of
              (Inl e, t) \<Rightarrow> (Inl e, s\<lparr>worktree := t\<rparr>)
            | (Inr u, t) \<Rightarrow> check_folders items missing' (s\<lparr>worktree := t\<rparr>))
         else check_folders items missing' s)
      else
        (case check_files folder files missing s of
           (Inl e, s') \<Rightarrow> (Inl e, s')
         | (Inr missing', s') \<Rightarrow> check_folders items missing' s'))"

definition banner :: "string \<Rightarrow> string" where
  "banner branch = newline # ''=== Checking branch: '' @ branch @ '' ===''"

text \<open>Lines 35 and 36: the banner, then the checkout.\<close>

definition checkout :: "'g shell \<Rightarrow> string \<Rightarrow> 'g state \<Rightarrow> (error + string) \<times> 'g state" where
  "checkout sh branch s = run sh (''git checkout '' @ branch) (print_line (banner branch) s)"

text \<open>Lines 34 to 55.\<close>

definition check_branch :: "'g shell \<Rightarrow> string \<Rightarrow> 'g state \<Rightarrow> (error + string list) \<times> 'g state" where
  "check_branch sh branch s =
     (case checkout sh branch s of
        (Inl e, s') \<Rightarrow> (Inl e, s')
      | (Inr out, s') \<Rightarrow> check_folders (REQUIRED_STRUCTURE s') [] s')"

subsection \<open>The run over all branches\<close>

type_synonym report = "(string \<times> string list) list"

text \<open>\<^verbatim>\<open>report[branch] = missing\<close>: a key already present keeps its place.\<close>

fun dict_set :: "report \<Rightarrow> string \<Rightarrow> string list \<Rightarrow> report" where
  "dict_set [] key v = [(key, v)]"
| "dict_set ((k, w) # d) key v = (if k = key then (k, v) # d else (k, w) # dict_set d key v)"

text \<open>The comprehension of line 59 over the lines of the text that \<^verbatim>\<open>run\<close> returned.\<close>

definition branch_names :: "string \<Rightarrow> string list" where
  "branch_names out =
     map (\<lambda>b. strip (remove_stars b))
       (filter (\<lambda>b. \<not> contains b ''remotes'') (split_on newline out))"

text \<open>The loop of lines 63 to 66.\<close>

fun audit_branches :: "'g shell \<Rightarrow> string list \<Rightarrow> report \<Rightarrow> 'g state \<Rightarrow> (error + report) \<times> 'g state" where
  "audit_branches sh [] report s = (Inr report, s)"
| "audit_branches sh (branch # branches) report s =
     (if branch \<noteq> [] then
        (case check_branch sh branch s of
           (Inl e, s') \<Rightarrow> (Inl e, s')
         | (Inr missing, s') \<Rightarrow> audit_branches sh branches (dict_set report branch missing) s')
      else audit_branches sh branches report s)"

definition final_header :: "string" where
  "final_header = [newline, newline] @ ''=== FINAL REPORT ===''"

text \<open>Lines 58 and 59: the branches to audit, in the order of the listing.\<close>

definition list_branches :: "'g shell \<Rightarrow> 'g state \<Rightarrow> (error + string list) \<times> 'g state" where
  "list_branches sh s =
     (case run sh ''git branch -a'' s of
        (Inl e, s') \<Rightarrow> (Inl e, s')
      | (Inr out, s') \<Rightarrow> (Inr (branch_names out), s'))"

text \<open>
  Lines 57 to 69. \<^verbatim>\<open>json.dumps(_, indent=2)\<close> is the library's; it is a parameter.
\<close>

definition main :: "(report \<Rightarrow> string) \<Rightarrow> 'g shell \<Rightarrow> 'g state \<Rightarrow> (error + unit) \<times> 'g state" where
  "main json_dumps sh s =
     (case list_branches sh s of
        (Inl e, s') \<Rightarrow> (Inl e, s')
      | (Inr branches, s') \<Rightarrow>
          (case audit_branches sh branches [] s' of
             (Inl e, s'') \<Rightarrow> (Inl e, s'')
           | (Inr report, s'') \<Rightarrow>
               (Inr (), print_line (json_dumps report) (print_line final_header s''))))"

subsection \<open>Manifests whose entries do not overlap\<close>

text \<open>
  The pairs of a folder and one of its required files, in the order of the audit; and
  the manifests in which no entry names a place that the repair of another entry makes:
  the keys are distinct, the file paths are distinct, no folder's path is an initial
  part of another folder's path, and no file's path is an initial part of a folder's
  path. The manifest of the program is one.
\<close>

definition file_pairs :: "structure \<Rightarrow> (string \<times> string) list" where
  "file_pairs d = concat (map (\<lambda>(folder, files). map (Pair folder) files) d)"

definition leads_to :: "string list \<Rightarrow> string list \<Rightarrow> bool" where
  "leads_to p q = (take (length p) q = p)"

definition separate :: "structure \<Rightarrow> bool" where
  "separate d =
     (distinct (map fst d)
      \<and> distinct (map (\<lambda>(folder, f). path_of (os_path_join folder f)) (file_pairs d))
      \<and> list_all (\<lambda>(F, files). list_all (\<lambda>(G, gl). G = F \<or> \<not> leads_to (path_of F) (path_of G)) d) d
      \<and> list_all (\<lambda>(F, f). list_all (\<lambda>(G, gl). \<not> leads_to (path_of (os_path_join F f)) (path_of G)) d)
           (file_pairs d))"

subsection \<open>Inputs for the examples\<close>

text \<open>
  The branch listing of the end-to-end scenario, a shell in which the listing and every
  checkout succeed and leave the working tree as it is, a shell in which the checkout
  of \<^verbatim>\<open>feature-x\<close> exits with status 1, and the state in which the module leaves the
  program, for a given setting of \<^verbatim>\<open>AUTO_FIX\<close> and a given tree.
\<close>

definition listing :: string where
  "listing = ''* main'' @ [newline] @ ''  remotes/origin/main'' @ [newline] @ ''  feature-x'' @ [newline]"

definition quiet_shell :: "unit shell" where
  "quiet_shell cmd g t =
     (if cmd = ''git branch -a'' then (0, Some listing, g, t) else (0, Some [], g, t))"

definition failing_shell :: "unit shell" where
  "failing_shell cmd g t =
     (if cmd = ''git branch -a'' then (0, Some listing, g, t)
      else if cmd = ''git checkout feature-x'' then (1, Some [], g, t)
      else (0, Some [], g, t))"

definition loaded :: "bool \<Rightarrow> fs \<Rightarrow> unit state" where
  "loaded fix t =
     \<lparr>REQUIRED_STRUCTURE = (case build_structure MAGICIANS of Inl e \<Rightarrow> [] | Inr d \<Rightarrow> d),
      AUTO_FIX = fix, vcs = (), worktree = t, stdout = [], invocations = []\<rparr>"

text \<open>
  Example trees, given by the paths they hold: a tree with every folder and file of the
  program's manifest, a tree with its folders and no file, and a tree with the folder
  \<^verbatim>\<open>config\<close> alone.
\<close>

definition tree_of :: "(string \<times> node) list \<Rightarrow> fs" where
  "tree_of entries = map_of (map (\<lambda>(p, n). (path_of p, n)) entries)"

definition complete_tree :: fs where
  "complete_tree =
     (case build_structure MAGICIANS of
        Inl e \<Rightarrow> Map.empty
      | Inr d \<Rightarrow> tree_of ((''resources'', Dir) #
          concat (map (\<lambda>(folder, files).
            (folder, Dir) # map (\<lambda>f. (os_path_join folder f, File [])) files) d)))"

definition folders_tree :: fs where
  "folders_tree =
     tree_of [(''orchestration'', Dir), (''resources'', Dir), (''resources/models'', Dir),
              (''resources/services'', Dir), (''lifecycle'', Dir), (''api'', Dir),
              (''config'', Dir), (''tests'', Dir)]"

definition config_tree :: fs where
  "config_tree = tree_of [(''config'', Dir)]"

section \<open>Properties\<close>

subsection \<open>Building the manifest\<close>

lemma append_to_keys:
  "key \<in> fst ` set d \<Longrightarrow> \<exists>d'. append_to key x d = Inr d' \<and> map fst d' = map fst d"
proof (induction d)
  case Nil
  then show ?case by simp
next
  case (Cons p d)
  obtain k v where p: "p = (k, v)" by (cases p)
  show ?case
  proof (cases "k = key")
    case True
    then show ?thesis by (simp add: p)
  next
    case False
    with Cons.prems p have "key \<in> fst ` set d" by auto
    from Cons.IH[OF this] False show ?thesis by (auto simp: p)
  qed
qed

lemma add_magician_keys:
  assumes "{''orchestration'', ''lifecycle'', ''api'', ''tests''} \<subseteq> fst ` set d"
  shows "\<exists>d'. add_magician m d = Inr d' \<and> map fst d' = map fst d"
proof -
  have step: "\<And>key x d0. key \<in> set (map fst d) \<Longrightarrow> map fst d0 = map fst d \<Longrightarrow>
      \<exists>d'. append_to key x d0 = Inr d' \<and> map fst d' = map fst d"
    using append_to_keys by (metis list.set_map)
  have k: "''orchestration'' \<in> set (map fst d)" "''lifecycle'' \<in> set (map fst d)"
    "''api'' \<in> set (map fst d)" "''tests'' \<in> set (map fst d)"
    using assms by auto
  obtain d1 where d1: "append_to ''orchestration'' (m @ ''_magician.py'') d = Inr d1" "map fst d1 = map fst d"
    using step[OF k(1) refl] by blast
  obtain d2 where d2: "append_to ''lifecycle'' (''vacuum_'' @ m @ ''_data.py'') d1 = Inr d2" "map fst d2 = map fst d"
    using step[OF k(2) d1(2)] by blast
  obtain d3 where d3: "append_to ''lifecycle'' (''retrain_'' @ m @ ''.py'') d2 = Inr d3" "map fst d3 = map fst d"
    using step[OF k(2) d2(2)] by blast
  obtain d4 where d4: "append_to ''api'' (''routes_'' @ m @ ''.py'') d3 = Inr d4" "map fst d4 = map fst d"
    using step[OF k(3) d3(2)] by blast
  obtain d5 where d5: "append_to ''tests'' (''test_'' @ m @ ''_api.py'') d4 = Inr d5" "map fst d5 = map fst d"
    using step[OF k(4) d4(2)] by blast
  obtain d6 where d6: "append_to ''tests'' (''test_'' @ m @ ''_magician.py'') d5 = Inr d6" "map fst d6 = map fst d"
    using step[OF k(4) d5(2)] by blast
  show ?thesis
    unfolding add_magician_def and_then_def using d1 d2 d3 d4 d5 d6 by simp
qed

lemma add_magicians_keys:
  "{''orchestration'', ''lifecycle'', ''api'', ''tests''} \<subseteq> fst ` set d \<Longrightarrow>
   \<exists>d'. add_magicians ms d = Inr d' \<and> map fst d' = map fst d"
proof (induction ms arbitrary: d)
  case Nil
  then show ?case by simp
next
  case (Cons m ms)
  obtain d1 where d1: "add_magician m d = Inr d1" "map fst d1 = map fst d"
    using add_magician_keys[OF Cons.prems] by blast
  have "fst ` set d1 = fst ` set d"
    using d1(2) by (metis list.set_map)
  with Cons.prems have "{''orchestration'', ''lifecycle'', ''api'', ''tests''} \<subseteq> fst ` set d1"
    by simp
  from Cons.IH[OF this] d1 show ?case
    by (auto simp: and_then_def)
qed

lemma build_structure_keys:
  "\<exists>d. build_structure ms = Inr d \<and> map fst d = map fst base_structure"
  unfolding build_structure_def
  by (rule add_magicians_keys) (simp add: base_structure_def)

text \<open>
  Claim C7. Built from the variant list \<open>[''job'']\<close>, the manifest is the mapping below:
  \<^verbatim>\<open>orchestration\<close> holds \<^verbatim>\<open>job_magician.py\<close>, \<^verbatim>\<open>lifecycle\<close> holds
  \<^verbatim>\<open>vacuum_job_data.py\<close> and \<^verbatim>\<open>retrain_job.py\<close>, \<^verbatim>\<open>api\<close> holds \<^verbatim>\<open>routes_job.py\<close>,
  and \<^verbatim>\<open>tests\<close> holds \<^verbatim>\<open>test_job_api.py\<close> and \<^verbatim>\<open>test_job_magician.py\<close>. The
  construction is a function of the variant list, and it returns a manifest for every
  variant list: no \<^verbatim>\<open>KeyError\<close> is raised.
\<close>

theorem build_structure_job:
  "build_structure [''job''] =
     Inr [(''orchestration'', [''base_magician.py'', ''router.py'', ''job_magician.py'']),
          (''resources/models'', []),
          (''resources/services'', []),
          (''lifecycle'', [''vacuum_job_data.py'', ''retrain_job.py'']),
          (''api'', [''routes_job.py'']),
          (''config'', [''settings.py'']),
          (''tests'', [''test_job_api.py'', ''test_job_magician.py''])]
   \<and> (\<exists>d. build_structure ms = Inr d)"
proof
  show "build_structure [''job''] =
     Inr [(''orchestration'', [''base_magician.py'', ''router.py'', ''job_magician.py'']),
          (''resources/models'', []),
          (''resources/services'', []),
          (''lifecycle'', [''vacuum_job_data.py'', ''retrain_job.py'']),
          (''api'', [''routes_job.py'']),
          (''config'', [''settings.py'']),
          (''tests'', [''test_job_api.py'', ''test_job_magician.py''])]"
    by (simp add: build_structure_def base_structure_def add_magician_def and_then_def)
  show "\<exists>d. build_structure ms = Inr d"
    using build_structure_keys by blast
qed

subsection \<open>Enumerating the branches\<close>

lemma strip_listing:
  "strip listing = ''* main'' @ [newline] @ ''  remotes/origin/main'' @ [newline] @ ''  feature-x''"
  by (simp add: strip_def listing_def isspace_def newline_def)

lemma branch_names_listing: "branch_names (strip listing) = [''main'', ''feature-x'']"
  by (simp add: strip_listing) (simp add: branch_names_def newline_def remove_stars_def strip_def isspace_def)

text \<open>
  Claim C6. When \<^verbatim>\<open>git branch -a\<close> exits with status 0 and prints the listing
  \<^verbatim>\<open>"* main\n  remotes/origin/main\n  feature-x\n"\<close>, the branches to audit are
  exactly \<^verbatim>\<open>main\<close> and \<^verbatim>\<open>feature-x\<close>, in this order: the remote entry is dropped,
  the marker and the blanks are stripped, and no empty name is left.
\<close>

theorem list_branches_listing:
  assumes "sh ''git branch -a'' (vcs s) (worktree s) = (0, Some listing, g, t)"
  shows "fst (list_branches sh s) = Inr [''main'', ''feature-x'']"
  using assms by (simp add: list_branches_def run_def Let_def branch_names_listing)

theorem list_branches_listing_witness:
  "quiet_shell ''git branch -a'' (vcs (loaded False Map.empty)) (worktree (loaded False Map.empty))
     = (0, Some listing, (), Map.empty)
   \<and> fst (list_branches quiet_shell (loaded False Map.empty)) = Inr [''main'', ''feature-x'']"
proof -
  have h: "quiet_shell ''git branch -a'' (vcs (loaded False Map.empty)) (worktree (loaded False Map.empty))
     = (0, Some listing, (), Map.empty)"
    by (simp add: quiet_shell_def loaded_def)
  from h list_branches_listing[of quiet_shell "loaded False Map.empty" "()" Map.empty] show ?thesis
    by simp
qed

lemma remove_stars_no_star: "CHR ''*'' \<notin> set (remove_stars b)"
  by (simp add: remove_stars_def)

lemma strip_subset: "set (strip s) \<subseteq> set s"
  by (auto simp: strip_def dest!: set_dropWhileD)

subsection \<open>The working tree only grows\<close>

lemma path_of_nonempty: "path_of p \<noteq> []"
  unfolding path_of_def by (induction p) (auto split: list.splits)

lemma makedirs_from_mono: "makedirs_from name pre cs t = (r, t') \<Longrightarrow> t \<subseteq>\<^sub>m t'"
proof (induction cs arbitrary: pre t)
  case Nil
  then show ?case by simp
next
  case (Cons c cs)
  show ?case
  proof (cases "t (pre @ [c])")
    case None
    with Cons.prems have "makedirs_from name (pre @ [c]) cs (t(pre @ [c] \<mapsto> Dir)) = (r, t')"
      by simp
    from Cons.IH[OF this] have "t(pre @ [c] \<mapsto> Dir) \<subseteq>\<^sub>m t'" .
    moreover have "t \<subseteq>\<^sub>m t(pre @ [c] \<mapsto> Dir)"
      using None by (auto simp: map_le_def)
    ultimately show ?thesis by (rule map_le_trans[rotated])
  next
    case (Some n)
    with Cons show ?thesis by (cases n) auto
  qed
qed

lemma makedirs_from_made:
  "makedirs_from name pre cs t = (Inr u, t') \<Longrightarrow> cs \<noteq> [] \<Longrightarrow> t' (pre @ cs) = Some Dir"
proof (induction cs arbitrary: pre t)
  case Nil
  then show ?case by simp
next
  case (Cons c cs)
  have "\<exists>t0. makedirs_from name (pre @ [c]) cs t0 = (Inr u, t') \<and> t0 (pre @ [c]) = Some Dir"
    using Cons.prems(1) by (auto split: option.splits node.splits)
  then obtain t0 where t0: "makedirs_from name (pre @ [c]) cs t0 = (Inr u, t')" "t0 (pre @ [c]) = Some Dir"
    by blast
  show ?case
  proof (cases "cs = []")
    case True
    with t0 show ?thesis by simp
  next
    case False
    from Cons.IH[OF t0(1) False] show ?thesis by simp
  qed
qed

lemma makedirs_from_frame:
  "makedirs_from name pre cs t = (r, t') \<Longrightarrow> t' p \<noteq> t p \<Longrightarrow>
   \<exists>k. 0 < k \<and> k \<le> length cs \<and> p = pre @ take k cs"
proof (induction cs arbitrary: pre t)
  case Nil
  then show ?case by simp
next
  case (Cons c cs)
  show ?case
  proof (cases "p = pre @ [c]")
    case True
    then have "0 < (1::nat) \<and> 1 \<le> length (c # cs) \<and> p = pre @ take 1 (c # cs)" by simp
    then show ?thesis by blast
  next
    case False
    have "\<exists>t0. makedirs_from name (pre @ [c]) cs t0 = (r, t') \<and> t0 p = t p"
      using Cons.prems False by (auto split: option.splits node.splits)
    then obtain t0 where t0: "makedirs_from name (pre @ [c]) cs t0 = (r, t')" "t0 p = t p"
      by blast
    with Cons.prems have "t' p \<noteq> t0 p" by simp
    from Cons.IH[OF t0(1) this] obtain k where "0 < k" "k \<le> length cs" "p = (pre @ [c]) @ take k cs"
      by blast
    then have "0 < Suc k \<and> Suc k \<le> length (c # cs) \<and> p = pre @ take (Suc k) (c # cs)"
      by simp
    then show ?thesis by blast
  qed
qed

lemma os_makedirs_mono: "os_makedirs name t = (r, t') \<Longrightarrow> t \<subseteq>\<^sub>m t'"
  unfolding os_makedirs_def by (rule makedirs_from_mono)

lemma os_makedirs_made: "os_makedirs name t = (Inr u, t') \<Longrightarrow> os_path_exists t' name"
  unfolding os_makedirs_def os_path_exists_def
  using makedirs_from_made[of name "[]" "path_of name" t u t'] path_of_nonempty by simp

lemma os_makedirs_made_dir: "os_makedirs name t = (Inr u, t') \<Longrightarrow> t' (path_of name) = Some Dir"
  unfolding os_makedirs_def
  using makedirs_from_made[of name "[]" "path_of name" t u t'] path_of_nonempty by simp

lemma write_file_mono: "write_file path text t = (r, t') \<Longrightarrow> \<not> os_path_exists t path \<Longrightarrow> t \<subseteq>\<^sub>m t'"
  by (auto simp: write_file_def os_path_exists_def map_le_def split: if_splits)

lemma write_file_made: "write_file path text t = (Inr u, t') \<Longrightarrow> t' (path_of path) = Some (File text)"
  by (auto simp: write_file_def split: if_splits)

lemma write_file_frame: "write_file path text t = (r, t') \<Longrightarrow> p \<noteq> path_of path \<Longrightarrow> t' p = t p"
  by (auto simp: write_file_def split: if_splits)

lemma exists_mono: "t \<subseteq>\<^sub>m t' \<Longrightarrow> os_path_exists t p \<Longrightarrow> os_path_exists t' p"
  by (auto simp: os_path_exists_def map_le_def dom_def)

lemma check_files_state:
  "check_files folder files missing s = (r, s') \<Longrightarrow>
   REQUIRED_STRUCTURE s' = REQUIRED_STRUCTURE s \<and> AUTO_FIX s' = AUTO_FIX s \<and> vcs s' = vcs s
   \<and> stdout s' = stdout s \<and> invocations s' = invocations s"
proof (induction files arbitrary: missing s)
  case Nil
  then show ?case by simp
next
  case (Cons f files)
  from Cons.prems show ?case
    by (auto simp: Let_def split: if_splits prod.splits sum.splits dest!: Cons.IH)
qed

lemma check_files_mono:
  "check_files folder files missing s = (r, s') \<Longrightarrow> worktree s \<subseteq>\<^sub>m worktree s'"
proof (induction files arbitrary: missing s)
  case Nil
  then show ?case by simp
next
  case (Cons f files)
  let ?path = "os_path_join folder f"
  show ?case
  proof (cases "\<not> os_path_exists (worktree s) ?path \<and> AUTO_FIX s")
    case False
    with Cons.prems Cons.IH show ?thesis
      by (auto simp: Let_def split: if_splits)
  next
    case True
    obtain w t where w: "write_file ?path (placeholder f) (worktree s) = (w, t)"
      by (cases "write_file ?path (placeholder f) (worktree s)")
    have le: "worktree s \<subseteq>\<^sub>m t"
      using write_file_mono[OF w] True by simp
    show ?thesis
    proof (cases w)
      case (Inl e)
      with Cons.prems True w le show ?thesis by (auto simp: Let_def)
    next
      case (Inr u)
      with Cons.prems True w
      have "check_files folder files (missing @ [missing_file ?path]) (s\<lparr>worktree := t\<rparr>) = (r, s')"
        by (simp add: Let_def)
      from Cons.IH[OF this] le show ?thesis
        by (auto intro: map_le_trans)
    qed
  qed
qed

lemma check_folders_state:
  "check_folders items missing s = (r, s') \<Longrightarrow>
   REQUIRED_STRUCTURE s' = REQUIRED_STRUCTURE s \<and> AUTO_FIX s' = AUTO_FIX s \<and> vcs s' = vcs s
   \<and> stdout s' = stdout s \<and> invocations s' = invocations s"
proof (induction items arbitrary: missing s)
  case Nil
  then show ?case by simp
next
  case (Cons item items)
  obtain folder files where item: "item = (folder, files)" by (cases item)
  from Cons.prems show ?case
    unfolding item
    by (auto simp: Let_def split: if_splits prod.splits sum.splits
        dest!: Cons.IH check_files_state)
qed

lemma check_folders_mono:
  "check_folders items missing s = (r, s') \<Longrightarrow> worktree s \<subseteq>\<^sub>m worktree s'"
proof (induction items arbitrary: missing s)
  case Nil
  then show ?case by simp
next
  case (Cons item items)
  obtain folder files where item: "item = (folder, files)" by (cases item)
  show ?case
  proof (cases "os_path_exists (worktree s) folder")
    case True
    obtain r1 s1 where s1: "check_files folder files missing s = (r1, s1)"
      by (cases "check_files folder files missing s")
    note le = check_files_mono[OF s1]
    show ?thesis
    proof (cases r1)
      case (Inl e)
      with Cons.prems True s1 le show ?thesis by (simp add: item)
    next
      case (Inr m)
      with Cons.prems True s1 have "check_folders items m s1 = (r, s')"
        by (simp add: item)
      from Cons.IH[OF this] le show ?thesis by (rule map_le_trans[rotated])
    qed
  next
    case False
    show ?thesis
    proof (cases "AUTO_FIX s")
      case on: True
      obtain r1 t where t: "os_makedirs folder (worktree s) = (r1, t)"
        by (cases "os_makedirs folder (worktree s)")
      note le = os_makedirs_mono[OF t]
      show ?thesis
      proof (cases r1)
        case (Inl e)
        with Cons.prems False on t le show ?thesis by (auto simp: item Let_def)
      next
        case (Inr u)
        with Cons.prems False on t
        have "check_folders items (missing @ [missing_folder folder]) (s\<lparr>worktree := t\<rparr>) = (r, s')"
          by (simp add: item Let_def)
        from Cons.IH[OF this] le show ?thesis by (auto intro: map_le_trans)
      qed
    next
      case off: False
      with Cons.prems False Cons.IH show ?thesis by (auto simp: item Let_def)
    qed
  qed
qed

lemma check_files_keeps:
  "check_files folder files missing s = (Inr missing', s') \<Longrightarrow> set missing \<subseteq> set missing'"
proof (induction files arbitrary: missing s)
  case Nil
  then show ?case by simp
next
  case (Cons f files)
  from Cons.prems show ?case
    by (auto simp: Let_def split: if_splits prod.splits sum.splits dest!: Cons.IH)
qed

lemma check_folders_keeps:
  "check_folders items missing s = (Inr missing', s') \<Longrightarrow> set missing \<subseteq> set missing'"
proof (induction items arbitrary: missing s)
  case Nil
  then show ?case by simp
next
  case (Cons item items)
  obtain folder files where item: "item = (folder, files)" by (cases item)
  from Cons.prems show ?case
    unfolding item
    by (auto simp: Let_def split: if_splits prod.splits sum.splits
        dest!: Cons.IH check_files_keeps)
qed

subsection \<open>A conformant tree\<close>

lemma check_files_present:
  "\<forall>f \<in> set files. os_path_exists (worktree s) (os_path_join folder f) \<Longrightarrow>
   check_files folder files missing s = (Inr missing, s)"
  by (induction files) (simp_all add: Let_def)

lemma check_folders_present:
  "\<forall>(folder, files) \<in> set items. os_path_exists (worktree s) folder \<and>
      (\<forall>f \<in> set files. os_path_exists (worktree s) (os_path_join folder f)) \<Longrightarrow>
   check_folders items missing s = (Inr missing, s)"
proof (induction items)
  case Nil
  then show ?case by simp
next
  case (Cons item items)
  obtain folder files where item: "item = (folder, files)" by (cases item)
  from Cons.prems have here: "os_path_exists (worktree s) folder"
    "\<forall>f \<in> set files. os_path_exists (worktree s) (os_path_join folder f)"
    by (auto simp: item)
  from Cons have "check_folders items missing s = (Inr missing, s)" by simp
  with here show ?case
    by (simp add: item check_files_present)
qed

text \<open>
  Claim C3. Whatever the branch, the manifest and the setting of \<^verbatim>\<open>AUTO_FIX\<close>: when
  the checkout succeeds and leaves a working tree in which every folder of the manifest
  and every required file of every folder exists, the audit returns the empty list (and
  leaves the state as the checkout left it).
\<close>

theorem check_branch_conformant:
  assumes "checkout sh branch s = (Inr out, s1)"
    and "\<forall>(folder, files) \<in> set (REQUIRED_STRUCTURE s1). os_path_exists (worktree s1) folder \<and>
           (\<forall>f \<in> set files. os_path_exists (worktree s1) (os_path_join folder f))"
  shows "check_branch sh branch s = (Inr [], s1)"
  using assms by (simp add: check_branch_def check_folders_present)

subsection \<open>Reporting without repair\<close>

lemma check_files_report:
  "\<not> AUTO_FIX s \<Longrightarrow>
   check_files folder files missing s =
     (Inr (missing @ map (\<lambda>f. missing_file (os_path_join folder f))
                      (filter (\<lambda>f. \<not> os_path_exists (worktree s) (os_path_join folder f)) files)), s)"
  by (induction files arbitrary: missing) (simp_all add: Let_def)

lemma check_folders_report:
  "\<not> AUTO_FIX s \<Longrightarrow>
   check_folders items missing s =
     (Inr (missing @ concat (map (\<lambda>(folder, files).
        if \<not> os_path_exists (worktree s) folder then [missing_folder folder]
        else map (\<lambda>f. missing_file (os_path_join folder f))
               (filter (\<lambda>f. \<not> os_path_exists (worktree s) (os_path_join folder f)) files)) items)), s)"
proof (induction items arbitrary: missing)
  case Nil
  then show ?case by simp
next
  case (Cons item items)
  obtain folder files where item: "item = (folder, files)" by (cases item)
  from Cons show ?case
    by (simp add: item Let_def check_files_report)
qed

text \<open>
  Claim C4. With \<^verbatim>\<open>AUTO_FIX\<close> off and a checkout that succeeds, the audit returns a
  list and leaves the state, the working tree with it, exactly as the checkout left it:
  nothing is created. Every folder of the manifest that is absent from that tree has
  its entry \<^verbatim>\<open>Missing folder: F\<close> in the list, and every required file \<open>f\<close> that is
  absent from a folder \<open>F\<close> that exists has its entry \<^verbatim>\<open>Missing file:\<close> followed by
  the joined path of \<open>F\<close> and \<open>f\<close>.
\<close>

theorem check_branch_report_only:
  assumes "\<not> AUTO_FIX s" and "checkout sh branch s = (Inr out, s1)"
  shows "\<exists>missing. check_branch sh branch s = (Inr missing, s1) \<and>
     (\<forall>(folder, files) \<in> set (REQUIRED_STRUCTURE s1).
        (\<not> os_path_exists (worktree s1) folder \<longrightarrow> missing_folder folder \<in> set missing) \<and>
        (os_path_exists (worktree s1) folder \<longrightarrow>
           (\<forall>f \<in> set files. \<not> os_path_exists (worktree s1) (os_path_join folder f) \<longrightarrow>
              missing_file (os_path_join folder f) \<in> set missing)))"
proof -
  have "\<not> AUTO_FIX s1"
    using assms by (auto simp: checkout_def run_def print_line_def Let_def split: prod.splits if_splits option.splits)
  from check_folders_report[OF this, of "REQUIRED_STRUCTURE s1" "[]"] assms(2)
  show ?thesis
    by (fastforce simp: check_branch_def)
qed

subsection \<open>The examples evaluated\<close>

lemma built: "build_structure MAGICIANS =
  Inr [(''orchestration'', [''base_magician.py'', ''router.py'', ''job_magician.py'', ''business_magician.py'', ''developer_magician.py'']),
       (''resources/models'', []),
       (''resources/services'', []),
       (''lifecycle'', [''vacuum_job_data.py'', ''retrain_job.py'', ''vacuum_business_data.py'', ''retrain_business.py'', ''vacuum_developer_data.py'', ''retrain_developer.py'']),
       (''api'', [''routes_job.py'', ''routes_business.py'', ''routes_developer.py'']),
       (''config'', [''settings.py'']),
       (''tests'', [''test_job_api.py'', ''test_job_magician.py'', ''test_business_api.py'', ''test_business_magician.py'', ''test_developer_api.py'', ''test_developer_magician.py''])]"
  by (simp add: build_structure_def MAGICIANS_def base_structure_def add_magician_def and_then_def)

lemma checkout_quiet:
  "checkout quiet_shell branch s =
     (Inr [], s\<lparr>stdout := stdout s @ [banner branch],
                invocations := invocations s @ [(''git checkout '' @ branch, 0)]\<rparr>)"
  by (simp add: checkout_def run_def quiet_shell_def print_line_def strip_def)

lemma tree_of_exists: "(p, n) \<in> set entries \<Longrightarrow> os_path_exists (tree_of entries) p"
proof -
  assume "(p, n) \<in> set entries"
  then have "(path_of p, n) \<in> set (map (\<lambda>(p, n). (path_of p, n)) entries)"
    by force
  then have "path_of p \<in> fst ` set (map (\<lambda>(p, n). (path_of p, n)) entries)"
    by (rule rev_image_eqI) simp
  then show ?thesis
    unfolding os_path_exists_def tree_of_def by (simp only: map_of_eq_None_iff not_not)
qed

lemma entries_folder:
  "(folder, files) \<in> set d \<Longrightarrow>
   (folder, Dir) \<in> set (concat (map (\<lambda>(folder, files).
            (folder, Dir) # map (\<lambda>f. (os_path_join folder f, File [])) files) d))"
  by (induction d) auto

lemma entries_file:
  "(folder, files) \<in> set d \<Longrightarrow> f \<in> set files \<Longrightarrow>
   (os_path_join folder f, File []) \<in> set (concat (map (\<lambda>(folder, files).
            (folder, Dir) # map (\<lambda>f. (os_path_join folder f, File [])) files) d))"
  by (induction d) auto

lemma complete_tree_holds:
  "\<forall>(folder, files) \<in> set (REQUIRED_STRUCTURE (loaded fix complete_tree)).
      os_path_exists complete_tree folder \<and>
      (\<forall>f \<in> set files. os_path_exists complete_tree (os_path_join folder f))"
proof -
  obtain d where d: "build_structure MAGICIANS = Inr d"
    using build_structure_keys by blast
  let ?entries = "(''resources'', Dir) #
          concat (map (\<lambda>(folder, files).
            (folder, Dir) # map (\<lambda>f. (os_path_join folder f, File [])) files) d)"
  have tree: "complete_tree = tree_of ?entries"
    by (simp add: complete_tree_def d)
  have "os_path_exists (tree_of ?entries) folder" if "(folder, files) \<in> set d" for folder files
    using entries_folder[OF that] by (intro tree_of_exists[of folder Dir]) simp
  moreover have "os_path_exists (tree_of ?entries) (os_path_join folder f)"
    if "(folder, files) \<in> set d" "f \<in> set files" for folder files f
    using entries_file[OF that] by (intro tree_of_exists[of _ "File []"]) simp
  ultimately show ?thesis
    unfolding tree by (auto simp: loaded_def d)
qed

theorem check_branch_conformant_witness:
  "checkout quiet_shell ''main'' (loaded True complete_tree) =
     (Inr [], (loaded True complete_tree)\<lparr>stdout := [banner ''main''], invocations := [(''git checkout main'', 0)]\<rparr>)
   \<and> check_branch quiet_shell ''main'' (loaded True complete_tree) =
     (Inr [], (loaded True complete_tree)\<lparr>stdout := [banner ''main''], invocations := [(''git checkout main'', 0)]\<rparr>)"
proof -
  let ?s1 = "(loaded True complete_tree)\<lparr>stdout := [banner ''main''], invocations := [(''git checkout main'', 0)]\<rparr>"
  have h1: "checkout quiet_shell ''main'' (loaded True complete_tree) = (Inr [], ?s1)"
    by (simp add: checkout_quiet) (simp add: loaded_def)
  have h2: "\<forall>(folder, files) \<in> set (REQUIRED_STRUCTURE ?s1). os_path_exists (worktree ?s1) folder \<and>
           (\<forall>f \<in> set files. os_path_exists (worktree ?s1) (os_path_join folder f))"
    using complete_tree_holds[of True] by (simp add: loaded_def)
  from h1 check_branch_conformant[OF h1 h2] show ?thesis by simp
qed

theorem check_branch_report_only_witness:
  "\<not> AUTO_FIX (loaded False config_tree)
   \<and> checkout quiet_shell ''main'' (loaded False config_tree) =
     (Inr [], (loaded False config_tree)\<lparr>stdout := [banner ''main''], invocations := [(''git checkout main'', 0)]\<rparr>)
   \<and> (\<exists>missing. check_branch quiet_shell ''main'' (loaded False config_tree) =
          (Inr missing, (loaded False config_tree)\<lparr>stdout := [banner ''main''], invocations := [(''git checkout main'', 0)]\<rparr>)
        \<and> missing_folder ''api'' \<in> set missing
        \<and> missing_file ''config/settings.py'' \<in> set missing)"
proof -
  let ?s1 = "(loaded False config_tree)\<lparr>stdout := [banner ''main''], invocations := [(''git checkout main'', 0)]\<rparr>"
  have h0: "\<not> AUTO_FIX (loaded False config_tree)"
    by (simp add: loaded_def)
  have h1: "checkout quiet_shell ''main'' (loaded False config_tree) = (Inr [], ?s1)"
    by (simp add: checkout_quiet) (simp add: loaded_def)
  from check_branch_report_only[OF h0 h1] obtain missing where
    m: "check_branch quiet_shell ''main'' (loaded False config_tree) = (Inr missing, ?s1)"
    and all: "\<forall>(folder, files) \<in> set (REQUIRED_STRUCTURE ?s1).
        (\<not> os_path_exists (worktree ?s1) folder \<longrightarrow> missing_folder folder \<in> set missing) \<and>
        (os_path_exists (worktree ?s1) folder \<longrightarrow>
           (\<forall>f \<in> set files. \<not> os_path_exists (worktree ?s1) (os_path_join folder f) \<longrightarrow>
              missing_file (os_path_join folder f) \<in> set missing))"
    by blast
  have api: "(''api'', [''routes_job.py'', ''routes_business.py'', ''routes_developer.py'']) \<in> set (REQUIRED_STRUCTURE ?s1)"
    and config: "(''config'', [''settings.py'']) \<in> set (REQUIRED_STRUCTURE ?s1)"
    by (simp_all add: loaded_def built)
  have no_api: "\<not> os_path_exists (worktree ?s1) ''api''"
    and has_config: "os_path_exists (worktree ?s1) ''config''"
    and no_settings: "\<not> os_path_exists (worktree ?s1) (os_path_join ''config'' ''settings.py'')"
    by (simp_all add: loaded_def config_tree_def tree_of_def os_path_exists_def path_of_def os_path_join_def)
  from all api no_api have "missing_folder ''api'' \<in> set missing"
    by blast
  moreover from all config has_config no_settings
  have "missing_file (os_path_join ''config'' ''settings.py'') \<in> set missing"
    by fastforce
  then have "missing_file ''config/settings.py'' \<in> set missing"
    by (simp add: os_path_join_def)
  ultimately show ?thesis using h0 h1 m by blast
qed

subsection \<open>The manifest is only read\<close>

lemma run_globals:
  "run sh cmd s = (r, s') \<Longrightarrow>
   REQUIRED_STRUCTURE s' = REQUIRED_STRUCTURE s \<and> AUTO_FIX s' = AUTO_FIX s"
  by (auto simp: run_def Let_def split: prod.splits if_splits option.splits)

lemma checkout_globals:
  "checkout sh branch s = (r, s') \<Longrightarrow>
   REQUIRED_STRUCTURE s' = REQUIRED_STRUCTURE s \<and> AUTO_FIX s' = AUTO_FIX s"
  unfolding checkout_def by (drule run_globals) (simp add: print_line_def)

lemma check_branch_globals:
  "check_branch sh branch s = (r, s') \<Longrightarrow>
   REQUIRED_STRUCTURE s' = REQUIRED_STRUCTURE s \<and> AUTO_FIX s' = AUTO_FIX s"
proof -
  assume a: "check_branch sh branch s = (r, s')"
  obtain r1 s1 where c: "checkout sh branch s = (r1, s1)"
    by (cases "checkout sh branch s")
  note g = checkout_globals[OF c]
  show ?thesis
  proof (cases r1)
    case (Inl e)
    with a c g show ?thesis by (simp add: check_branch_def)
  next
    case (Inr out)
    with a c have "check_folders (REQUIRED_STRUCTURE s1) [] s1 = (r, s')"
      by (simp add: check_branch_def)
    from check_folders_state[OF this] g show ?thesis by simp
  qed
qed

lemma audit_branches_globals:
  "audit_branches sh branches report s = (r, s') \<Longrightarrow>
   REQUIRED_STRUCTURE s' = REQUIRED_STRUCTURE s \<and> AUTO_FIX s' = AUTO_FIX s"
proof (induction branches arbitrary: report s)
  case Nil
  then show ?case by simp
next
  case (Cons b bs)
  from Cons.prems show ?case
    by (auto split: if_splits prod.splits sum.splits dest!: Cons.IH check_branch_globals)
qed

lemma list_branches_globals:
  "list_branches sh s = (r, s') \<Longrightarrow>
   REQUIRED_STRUCTURE s' = REQUIRED_STRUCTURE s \<and> AUTO_FIX s' = AUTO_FIX s"
  by (auto simp: list_branches_def split: prod.splits sum.splits dest!: run_globals)

lemma main_globals:
  "main json_dumps sh s = (r, s') \<Longrightarrow>
   REQUIRED_STRUCTURE s' = REQUIRED_STRUCTURE s \<and> AUTO_FIX s' = AUTO_FIX s"
  by (auto simp: main_def print_line_def split: prod.splits sum.splits
      dest!: list_branches_globals audit_branches_globals)

text \<open>
  Claim C9. The keys of the manifest that the module builds are pairwise distinct (for
  any variant list), and the manifest is the same before and after the enumeration of
  the branches, the audit of a branch (whatever \<^verbatim>\<open>AUTO_FIX\<close> is, and whether the audit
  returns or raises) and the whole run with its printing of the report.
\<close>

theorem manifest_immutable:
  "(\<exists>d. build_structure magicians = Inr d \<and> distinct (map fst d))
   \<and> REQUIRED_STRUCTURE (snd (list_branches sh s)) = REQUIRED_STRUCTURE s
   \<and> REQUIRED_STRUCTURE (snd (check_branch sh branch s)) = REQUIRED_STRUCTURE s
   \<and> REQUIRED_STRUCTURE (snd (main json_dumps sh s)) = REQUIRED_STRUCTURE s"
proof (intro conjI)
  obtain d where d: "build_structure magicians = Inr d" "map fst d = map fst base_structure"
    using build_structure_keys by blast
  have "distinct (map fst base_structure)"
    by (simp add: base_structure_def)
  with d show "\<exists>d. build_structure magicians = Inr d \<and> distinct (map fst d)"
    by simp
  show "REQUIRED_STRUCTURE (snd (list_branches sh s)) = REQUIRED_STRUCTURE s"
    using list_branches_globals[of sh s] by (cases "list_branches sh s") simp
  show "REQUIRED_STRUCTURE (snd (check_branch sh branch s)) = REQUIRED_STRUCTURE s"
    using check_branch_globals[of sh branch s] by (cases "check_branch sh branch s") simp
  show "REQUIRED_STRUCTURE (snd (main json_dumps sh s)) = REQUIRED_STRUCTURE s"
    using main_globals[of json_dumps sh s] by (cases "main json_dumps sh s") simp
qed

subsection \<open>A failing command aborts the run\<close>

lemma run_trace:
  "run sh cmd s = (r, s') \<Longrightarrow>
   \<exists>n. invocations s' = invocations s @ [(cmd, n)] \<and> stdout s' = stdout s
     \<and> (n \<noteq> 0 \<longrightarrow> r = Inl (CalledProcessError cmd n))"
  by (auto simp: run_def Let_def split: prod.splits if_splits option.splits)

lemma run_ok_status:
  "run sh cmd s = (Inr out, s') \<Longrightarrow> invocations s' = invocations s @ [(cmd, 0)] \<and> stdout s' = stdout s"
  by (auto simp: run_def Let_def split: prod.splits if_splits option.splits)

lemma check_branch_trace:
  assumes "check_branch sh branch s = (r, s')"
  shows "\<exists>n. invocations s' = invocations s @ [(''git checkout '' @ branch, n)]
     \<and> stdout s' = stdout s @ [banner branch]
     \<and> (n \<noteq> 0 \<longrightarrow> r = Inl (CalledProcessError (''git checkout '' @ branch) n))"
proof -
  obtain r1 s1 where c: "run sh (''git checkout '' @ branch) (print_line (banner branch) s) = (r1, s1)"
    by (cases "run sh (''git checkout '' @ branch) (print_line (banner branch) s)")
  show ?thesis
  proof (cases r1)
    case (Inl e)
    with assms c have "r = Inl e" "s' = s1"
      by (simp_all add: check_branch_def checkout_def)
    with run_trace[OF c] Inl show ?thesis
      by (auto simp: print_line_def)
  next
    case (Inr out)
    with assms c have "check_folders (REQUIRED_STRUCTURE s1) [] s1 = (r, s')"
      by (simp add: check_branch_def checkout_def)
    from check_folders_state[OF this] run_ok_status[OF c[unfolded Inr]] show ?thesis
      by (simp add: print_line_def)
  qed
qed

lemma audit_branches_trace:
  "audit_branches sh branches report s = (r, s') \<Longrightarrow>
   \<exists>tr. invocations s' = invocations s @ map (\<lambda>(b, n). (''git checkout '' @ b, n)) tr
     \<and> stdout s' = stdout s @ map (\<lambda>(b, n). banner b) tr
     \<and> (\<forall>(b, n) \<in> set tr. n \<noteq> 0 \<longrightarrow>
           r = Inl (CalledProcessError (''git checkout '' @ b) n) \<and> (b, n) = last tr)"
proof (induction branches arbitrary: report s)
  case Nil
  then have "invocations s' = invocations s @ map (\<lambda>(b, n). (''git checkout '' @ b, n)) []
     \<and> stdout s' = stdout s @ map (\<lambda>(b, n). banner b) []
     \<and> (\<forall>(b, n) \<in> set ([] :: (string \<times> nat) list). n \<noteq> 0 \<longrightarrow>
           r = Inl (CalledProcessError (''git checkout '' @ b) n) \<and> (b, n) = last [])"
    by simp
  then show ?case by blast
next
  case (Cons b bs)
  show ?case
  proof (cases "b = []")
    case True
    with Cons.prems have "audit_branches sh bs report s = (r, s')" by simp
    from Cons.IH[OF this] show ?thesis .
  next
    case False
    obtain r1 s1 where c: "check_branch sh b s = (r1, s1)"
      by (cases "check_branch sh b s")
    from check_branch_trace[OF c] obtain n where
      n: "invocations s1 = invocations s @ [(''git checkout '' @ b, n)]"
         "stdout s1 = stdout s @ [banner b]"
         "n \<noteq> 0 \<longrightarrow> r1 = Inl (CalledProcessError (''git checkout '' @ b) n)"
      by blast
    show ?thesis
    proof (cases r1)
      case (Inl e)
      with Cons.prems False c have "r = Inl e" "s' = s1" by simp_all
      with n Inl have "invocations s' = invocations s @ map (\<lambda>(b, n). (''git checkout '' @ b, n)) [(b, n)]
         \<and> stdout s' = stdout s @ map (\<lambda>(b, n). banner b) [(b, n)]
         \<and> (\<forall>(b', n') \<in> set [(b, n)]. n' \<noteq> 0 \<longrightarrow>
           r = Inl (CalledProcessError (''git checkout '' @ b') n') \<and> (b', n') = last [(b, n)])"
        by simp
      then show ?thesis by blast
    next
      case (Inr m)
      with n have n0: "n = 0" by auto
      from Cons.prems False c Inr
      have "audit_branches sh bs (dict_set report b m) s1 = (r, s')" by simp
      from Cons.IH[OF this] obtain tr where
        tr: "invocations s' = invocations s1 @ map (\<lambda>(b, n). (''git checkout '' @ b, n)) tr"
            "stdout s' = stdout s1 @ map (\<lambda>(b, n). banner b) tr"
            "\<forall>(b, n) \<in> set tr. n \<noteq> 0 \<longrightarrow>
               r = Inl (CalledProcessError (''git checkout '' @ b) n) \<and> (b, n) = last tr"
        by blast
      have "invocations s' = invocations s @ map (\<lambda>(b, n). (''git checkout '' @ b, n)) ((b, 0) # tr)
         \<and> stdout s' = stdout s @ map (\<lambda>(b, n). banner b) ((b, 0) # tr)
         \<and> (\<forall>(b', n') \<in> set ((b, 0) # tr). n' \<noteq> 0 \<longrightarrow>
           r = Inl (CalledProcessError (''git checkout '' @ b') n') \<and> (b', n') = last ((b, 0) # tr))"
        using tr n n0 by auto
      then show ?thesis by blast
    qed
  qed
qed

lemma banner_not_final: "banner b \<noteq> final_header" "final_header \<noteq> banner b"
  by (simp_all add: banner_def final_header_def newline_def)

text \<open>
  Claim C8. Take any command that \<^verbatim>\<open>main\<close> has run (the branch listing or a checkout)
  and that exited with a status other than 0. Then \<^verbatim>\<open>main\<close> raised the
  \<^verbatim>\<open>CalledProcessError\<close> of this command, which is the last command it ran; all
  it has printed are the banners of the branches whose checkout it had started, the
  failing one included, so neither the header of the final report nor the report is
  printed, and the report built so far is lost with the exception.
\<close>

theorem main_aborts:
  assumes "main json_dumps sh s = (r, s')"
    and "(cmd, n) \<in> set (drop (length (invocations s)) (invocations s'))"
    and "n \<noteq> 0"
  shows "r = Inl (CalledProcessError cmd n)
    \<and> last (invocations s') = (cmd, n)
    \<and> (\<exists>branches. stdout s' = stdout s @ map banner branches
          \<and> map fst (drop (length (invocations s)) (invocations s'))
              = ''git branch -a'' # map (\<lambda>b. ''git checkout '' @ b) branches)
    \<and> final_header \<notin> set (drop (length (stdout s)) (stdout s'))"
proof -
  obtain r0 s0 where l: "run sh ''git branch -a'' s = (r0, s0)"
    by (cases "run sh ''git branch -a'' s")
  from run_trace[OF l] obtain n0 where
    n0: "invocations s0 = invocations s @ [(''git branch -a'', n0)]" "stdout s0 = stdout s"
        "n0 \<noteq> 0 \<longrightarrow> r0 = Inl (CalledProcessError ''git branch -a'' n0)"
    by blast
  show ?thesis
  proof (cases r0)
    case (Inl e)
    with assms(1) l have rs: "r = Inl e" "s' = s0"
      by (simp_all add: main_def list_branches_def)
    with assms(2) n0 have "(cmd, n) = (''git branch -a'', n0)" by simp
    with assms(3) n0 rs Inl have f1: "r = Inl (CalledProcessError cmd n)"
      and f2: "last (invocations s') = (cmd, n)"
      by auto
    have "stdout s' = stdout s @ map banner []
          \<and> map fst (drop (length (invocations s)) (invocations s'))
              = ''git branch -a'' # map (\<lambda>b. ''git checkout '' @ b) []"
      using rs n0 by simp
    then have f3: "\<exists>branches. stdout s' = stdout s @ map banner branches
          \<and> map fst (drop (length (invocations s)) (invocations s'))
              = ''git branch -a'' # map (\<lambda>b. ''git checkout '' @ b) branches"
      by (rule exI)
    have f4: "final_header \<notin> set (drop (length (stdout s)) (stdout s'))"
      using rs n0 by simp
    show ?thesis by (rule conjI[OF f1 conjI[OF f2 conjI[OF f3 f4]]])
  next
    case (Inr out)
    with n0 have z: "n0 = 0" by auto
    obtain r2 s2 where a: "audit_branches sh (branch_names out) [] s0 = (r2, s2)"
      by (cases "audit_branches sh (branch_names out) [] s0")
    from audit_branches_trace[OF a] obtain tr where
      tr: "invocations s2 = invocations s0 @ map (\<lambda>(b, n). (''git checkout '' @ b, n)) tr"
          "stdout s2 = stdout s0 @ map (\<lambda>(b, n). banner b) tr"
          "\<forall>(b, n) \<in> set tr. n \<noteq> 0 \<longrightarrow>
             r2 = Inl (CalledProcessError (''git checkout '' @ b) n) \<and> (b, n) = last tr"
      by blast
    have inv: "invocations s' = invocations s2"
      using assms(1) l Inr a by (cases r2) (auto simp: main_def list_branches_def print_line_def)
    have new: "drop (length (invocations s)) (invocations s')
      = (''git branch -a'', 0) # map (\<lambda>(b, n). (''git checkout '' @ b, n)) tr"
      using inv tr(1) n0(1) z by simp
    with assms(2,3) have "(cmd, n) \<in> set (map (\<lambda>(b, n). (''git checkout '' @ b, n)) tr)"
      by auto
    then obtain b where b: "(b, n) \<in> set tr" "cmd = ''git checkout '' @ b"
      by auto
    with tr(3) assms(3) have r2: "r2 = Inl (CalledProcessError cmd n)" and lst: "(b, n) = last tr"
      by auto
    from b have ne: "tr \<noteq> []" by auto
    from assms(1) l Inr a r2 have rs: "r = Inl (CalledProcessError cmd n)" "s' = s2"
      by (simp_all add: main_def list_branches_def)
    have f2: "last (invocations s') = (cmd, n)"
      using rs tr(1) ne lst b(2) by (simp add: last_map flip: lst)
    have "stdout s' = stdout s @ map banner (map fst tr)
          \<and> map fst (drop (length (invocations s)) (invocations s'))
              = ''git branch -a'' # map (\<lambda>b. ''git checkout '' @ b) (map fst tr)"
      using rs tr(2) n0(2) new by (simp add: case_prod_unfold comp_def)
    then have f3: "\<exists>branches. stdout s' = stdout s @ map banner branches
          \<and> map fst (drop (length (invocations s)) (invocations s'))
              = ''git branch -a'' # map (\<lambda>b. ''git checkout '' @ b) branches"
      by (rule exI)
    have f4: "final_header \<notin> set (drop (length (stdout s)) (stdout s'))"
      using rs tr(2) n0(2) by (auto simp: case_prod_unfold banner_not_final)
    show ?thesis by (rule conjI[OF rs(1) conjI[OF f2 conjI[OF f3 f4]]])
  qed
qed

theorem main_aborts_witness:
  "main (\<lambda>report. []) failing_shell (loaded False config_tree) =
     (Inl (CalledProcessError ''git checkout feature-x'' 1),
      (loaded False config_tree)\<lparr>stdout := [banner ''main'', banner ''feature-x''],
        invocations := [(''git branch -a'', 0), (''git checkout main'', 0), (''git checkout feature-x'', 1)]\<rparr>)
   \<and> last [(''git branch -a'', 0 :: nat), (''git checkout main'', 0), (''git checkout feature-x'', 1)]
       = (''git checkout feature-x'', 1)
   \<and> final_header \<notin> set [banner ''main'', banner ''feature-x'']"
proof -
  let ?s = "loaded False config_tree"
  let ?s' = "?s\<lparr>stdout := [banner ''main'', banner ''feature-x''],
        invocations := [(''git branch -a'', 0), (''git checkout main'', 0), (''git checkout feature-x'', 1)]\<rparr>"
  have h1: "main (\<lambda>report. []) failing_shell ?s = (Inl (CalledProcessError ''git checkout feature-x'' 1), ?s')"
    by (simp add: main_def list_branches_def run_def failing_shell_def branch_names_listing
        check_branch_def checkout_def print_line_def check_folders_report loaded_def)
  have h2: "(''git checkout feature-x'', 1) \<in> set (drop (length (invocations ?s)) (invocations ?s'))"
    by (simp add: loaded_def)
  have h3: "(1::nat) \<noteq> 0" by simp
  from main_aborts[OF h1 h2 h3] h1 show ?thesis
    by (simp add: loaded_def)
qed

subsection \<open>Repeated repair\<close>

lemma check_folders_makes_folders:
  "AUTO_FIX s \<Longrightarrow> check_folders items missing s = (Inr missing', s') \<Longrightarrow>
   \<forall>(folder, files) \<in> set items. os_path_exists (worktree s') folder"
proof (induction items arbitrary: missing s)
  case Nil
  then show ?case by simp
next
  case (Cons item items)
  obtain folder files where item: "item = (folder, files)" by (cases item)
  have "\<exists>m1 s1. check_folders items m1 s1 = (Inr missing', s') \<and> AUTO_FIX s1
          \<and> os_path_exists (worktree s1) folder"
  proof (cases "os_path_exists (worktree s) folder")
    case True
    obtain r1 s1 where s1: "check_files folder files missing s = (r1, s1)"
      by (cases "check_files folder files missing s")
    with Cons.prems True obtain m1 where m1: "r1 = Inr m1" "check_folders items m1 s1 = (Inr missing', s')"
      by (cases r1) (simp_all add: item)
    from check_files_state[OF s1] check_files_mono[OF s1] Cons.prems(1) True m1(2)
    show ?thesis by (auto intro: exists_mono)
  next
    case False
    obtain r1 t where t: "os_makedirs folder (worktree s) = (r1, t)"
      by (cases "os_makedirs folder (worktree s)")
    with Cons.prems False have r1: "r1 = Inr ()"
      and rest: "check_folders items (missing @ [missing_folder folder]) (s\<lparr>worktree := t\<rparr>) = (Inr missing', s')"
      by (cases r1; simp add: item Let_def)+
    from os_makedirs_made[OF t[unfolded r1]] rest Cons.prems(1)
    have "check_folders items (missing @ [missing_folder folder]) (s\<lparr>worktree := t\<rparr>) = (Inr missing', s')
        \<and> AUTO_FIX (s\<lparr>worktree := t\<rparr>) \<and> os_path_exists (worktree (s\<lparr>worktree := t\<rparr>)) folder"
      by simp
    then show ?thesis by blast
  qed
  then obtain m1 s1 where rest: "check_folders items m1 s1 = (Inr missing', s')"
    and on1: "AUTO_FIX s1" and here: "os_path_exists (worktree s1) folder"
    by blast
  from exists_mono[OF check_folders_mono[OF rest] here] Cons.IH[OF on1 rest]
  show ?case by (simp add: item)
qed

lemma check_files_makes_files:
  "AUTO_FIX s \<Longrightarrow> check_files folder files missing s = (Inr missing', s') \<Longrightarrow>
   \<forall>f \<in> set files. os_path_exists (worktree s') (os_path_join folder f)"
proof (induction files arbitrary: missing s)
  case Nil
  then show ?case by simp
next
  case (Cons f files)
  let ?path = "os_path_join folder f"
  have "\<exists>m1 s1. check_files folder files m1 s1 = (Inr missing', s') \<and> AUTO_FIX s1
          \<and> os_path_exists (worktree s1) ?path"
  proof (cases "os_path_exists (worktree s) ?path")
    case True
    with Cons.prems show ?thesis by (auto simp: Let_def)
  next
    case False
    obtain r1 t where t: "write_file ?path (placeholder f) (worktree s) = (r1, t)"
      by (cases "write_file ?path (placeholder f) (worktree s)")
    with Cons.prems False have r1: "r1 = Inr ()"
      and rest: "check_files folder files (missing @ [missing_file ?path]) (s\<lparr>worktree := t\<rparr>) = (Inr missing', s')"
      by (cases r1; simp add: Let_def)+
    from write_file_made[OF t[unfolded r1]] rest Cons.prems(1)
    have "check_files folder files (missing @ [missing_file ?path]) (s\<lparr>worktree := t\<rparr>) = (Inr missing', s')
        \<and> AUTO_FIX (s\<lparr>worktree := t\<rparr>) \<and> os_path_exists (worktree (s\<lparr>worktree := t\<rparr>)) ?path"
      by (simp add: os_path_exists_def)
    then show ?thesis by blast
  qed
  then obtain m1 s1 where rest: "check_files folder files m1 s1 = (Inr missing', s')"
    and on1: "AUTO_FIX s1" and here: "os_path_exists (worktree s1) ?path"
    by blast
  from exists_mono[OF check_files_mono[OF rest] here] Cons.IH[OF on1 rest]
  show ?case by simp
qed

lemma check_folders_makes_files:
  "AUTO_FIX s \<Longrightarrow> check_folders items missing s = (Inr missing', s') \<Longrightarrow>
   \<forall>(folder, files) \<in> set items. os_path_exists (worktree s) folder \<Longrightarrow>
   \<forall>(folder, files) \<in> set items. \<forall>f \<in> set files. os_path_exists (worktree s') (os_path_join folder f)"
proof (induction items arbitrary: missing s)
  case Nil
  then show ?case by simp
next
  case (Cons item items)
  obtain folder files where item: "item = (folder, files)" by (cases item)
  from Cons.prems(3) have here: "os_path_exists (worktree s) folder"
    and others: "\<forall>(folder, files) \<in> set items. os_path_exists (worktree s) folder"
    by (simp_all add: item)
  obtain r1 s1 where s1: "check_files folder files missing s = (r1, s1)"
    by (cases "check_files folder files missing s")
  with Cons.prems here obtain m1 where m1: "r1 = Inr m1" "check_folders items m1 s1 = (Inr missing', s')"
    by (cases r1) (simp_all add: item)
  note st = check_files_state[OF s1] and le = check_files_mono[OF s1]
  from st Cons.prems(1) have on1: "AUTO_FIX s1" by simp
  from others le have others1: "\<forall>(folder, files) \<in> set items. os_path_exists (worktree s1) folder"
    by (auto intro: exists_mono)
  from check_files_makes_files[OF Cons.prems(1) s1[unfolded m1(1)]]
  have "\<forall>f \<in> set files. os_path_exists (worktree s1) (os_path_join folder f)" .
  with check_folders_mono[OF m1(2)]
  have "\<forall>f \<in> set files. os_path_exists (worktree s') (os_path_join folder f)"
    by (auto intro: exists_mono)
  with Cons.IH[OF on1 m1(2) others1] show ?case
    by (simp add: item)
qed

lemma check_branch_Inr:
  assumes "check_branch sh branch s = (Inr missing, s')"
  shows "\<exists>out c. checkout sh branch s = (Inr out, c)
     \<and> check_folders (REQUIRED_STRUCTURE s) [] c = (Inr missing, s')
     \<and> REQUIRED_STRUCTURE c = REQUIRED_STRUCTURE s \<and> AUTO_FIX c = AUTO_FIX s"
proof -
  obtain r c where c: "checkout sh branch s = (r, c)"
    by (cases "checkout sh branch s")
  with assms obtain out where "r = Inr out"
    by (cases r) (simp_all add: check_branch_def)
  with assms c checkout_globals[OF c] show ?thesis
    by (simp add: check_branch_def)
qed

text \<open>
  Claim C1, as amended. Let three successive audits of a branch with \<^verbatim>\<open>AUTO_FIX\<close> on
  return (every checkout succeeds, no creation fails), where checking out the branch
  again leaves the working tree as the audit before left it. Then the third audit
  returns the empty list; the second one does so when every folder of the manifest
  existed after the first checkout.
\<close>

theorem check_branch_thrice:
  assumes "AUTO_FIX s0"
    and "check_branch sh branch s0 = (Inr m1, s1)"
    and "check_branch sh branch s1 = (Inr m2, s2)"
    and "check_branch sh branch s2 = (Inr m3, s3)"
    and "worktree (snd (checkout sh branch s1)) = worktree s1"
    and "worktree (snd (checkout sh branch s2)) = worktree s2"
  shows "m3 = [] \<and>
    ((\<forall>(folder, files) \<in> set (REQUIRED_STRUCTURE s0).
        os_path_exists (worktree (snd (checkout sh branch s0))) folder) \<longrightarrow> m2 = [])"
proof -
  let ?M = "REQUIRED_STRUCTURE s0"
  from check_branch_Inr[OF assms(2)] assms(1) obtain out0 c0 where
    c0: "checkout sh branch s0 = (Inr out0, c0)" "check_folders ?M [] c0 = (Inr m1, s1)" "AUTO_FIX c0"
    by auto
  from check_branch_globals[OF assms(2)] assms(1)
  have g1: "REQUIRED_STRUCTURE s1 = ?M" "AUTO_FIX s1" by simp_all
  from check_branch_Inr[OF assms(3)] g1 assms(5) obtain out1 c1 where
    c1: "checkout sh branch s1 = (Inr out1, c1)" "check_folders ?M [] c1 = (Inr m2, s2)" "AUTO_FIX c1"
      "worktree c1 = worktree s1" "REQUIRED_STRUCTURE c1 = ?M"
    by auto
  from check_branch_globals[OF assms(3)] g1
  have g2: "REQUIRED_STRUCTURE s2 = ?M" "AUTO_FIX s2" by simp_all
  from check_branch_Inr[OF assms(4)] g2 assms(6) obtain out2 c2 where
    c2: "checkout sh branch s2 = (Inr out2, c2)" "check_folders ?M [] c2 = (Inr m3, s3)"
      "worktree c2 = worktree s2" "REQUIRED_STRUCTURE c2 = ?M"
    by auto
  have folders1: "\<forall>(folder, files) \<in> set ?M. os_path_exists (worktree s1) folder"
    by (rule check_folders_makes_folders[OF c0(3) c0(2)])
  then have folders_c1: "\<forall>(folder, files) \<in> set ?M. os_path_exists (worktree c1) folder"
    by (simp add: c1(4))
  have files2: "\<forall>(folder, files) \<in> set ?M. \<forall>f \<in> set files.
      os_path_exists (worktree s2) (os_path_join folder f)"
    by (rule check_folders_makes_files[OF c1(3) c1(2) folders_c1])
  have folders2: "\<forall>(folder, files) \<in> set ?M. os_path_exists (worktree s2) folder"
    using folders_c1 check_folders_mono[OF c1(2)] by (auto intro: exists_mono)
  have "\<forall>(folder, files) \<in> set ?M. os_path_exists (worktree c2) folder \<and>
      (\<forall>f \<in> set files. os_path_exists (worktree c2) (os_path_join folder f))"
    using folders2 files2 by (auto simp: c2(3))
  from check_folders_present[OF this, of "[]"] c2(2) have third: "m3 = []"
    by simp
  have second: "m2 = []"
    if all: "\<forall>(folder, files) \<in> set ?M. os_path_exists (worktree (snd (checkout sh branch s0))) folder"
  proof -
    from all have folders0: "\<forall>(folder, files) \<in> set ?M. os_path_exists (worktree c0) folder"
      by (simp add: c0(1))
    have "\<forall>(folder, files) \<in> set ?M. \<forall>f \<in> set files.
        os_path_exists (worktree s1) (os_path_join folder f)"
      by (rule check_folders_makes_files[OF c0(3) c0(2) folders0])
    with folders1 have "\<forall>(folder, files) \<in> set ?M. os_path_exists (worktree c1) folder \<and>
        (\<forall>f \<in> set files. os_path_exists (worktree c1) (os_path_join folder f))"
      by (auto simp: c1(4))
    from check_folders_present[OF this, of "[]"] c1(2) show ?thesis
      by simp
  qed
  from third second show ?thesis by blast
qed

text \<open>The audits of the empty tree and of the tree of folders, evaluated.\<close>

lemma empty_tree_first:
  "fst (check_branch quiet_shell ''main'' (loaded True Map.empty)) =
       Inr [''Missing folder: orchestration'', ''Missing folder: resources/models'',
            ''Missing folder: resources/services'', ''Missing folder: lifecycle'',
            ''Missing folder: api'', ''Missing folder: config'', ''Missing folder: tests'']"
  by code_simp

lemma empty_tree_second:
  "fst (check_branch quiet_shell ''main''
          (snd (check_branch quiet_shell ''main'' (loaded True Map.empty)))) =
       Inr [''Missing file: orchestration/base_magician.py'',
            ''Missing file: orchestration/router.py'',
            ''Missing file: orchestration/job_magician.py'',
            ''Missing file: orchestration/business_magician.py'',
            ''Missing file: orchestration/developer_magician.py'',
            ''Missing file: lifecycle/vacuum_job_data.py'',
            ''Missing file: lifecycle/retrain_job.py'',
            ''Missing file: lifecycle/vacuum_business_data.py'',
            ''Missing file: lifecycle/retrain_business.py'',
            ''Missing file: lifecycle/vacuum_developer_data.py'',
            ''Missing file: lifecycle/retrain_developer.py'',
            ''Missing file: api/routes_job.py'',
            ''Missing file: api/routes_business.py'',
            ''Missing file: api/routes_developer.py'',
            ''Missing file: config/settings.py'',
            ''Missing file: tests/test_job_api.py'',
            ''Missing file: tests/test_job_magician.py'',
            ''Missing file: tests/test_business_api.py'',
            ''Missing file: tests/test_business_magician.py'',
            ''Missing file: tests/test_developer_api.py'',
            ''Missing file: tests/test_developer_magician.py'']"
  by code_simp

lemma empty_tree_third_returns:
  "isl (fst (check_branch quiet_shell ''main'' (snd (check_branch quiet_shell ''main''
          (snd (check_branch quiet_shell ''main'' (loaded True Map.empty))))))) = False"
  by code_simp

text \<open>
  The claim as stated fails on the empty tree: the first audit makes the seven folders
  and goes on to the next folder each time, so the second audit finds their files
  missing.
\<close>

theorem check_branch_twice_counterexample:
  "AUTO_FIX (loaded True Map.empty)
   \<and> fst (check_branch quiet_shell ''main'' (loaded True Map.empty)) =
       Inr [''Missing folder: orchestration'', ''Missing folder: resources/models'',
            ''Missing folder: resources/services'', ''Missing folder: lifecycle'',
            ''Missing folder: api'', ''Missing folder: config'', ''Missing folder: tests'']
   \<and> fst (check_branch quiet_shell ''main''
          (snd (check_branch quiet_shell ''main'' (loaded True Map.empty)))) \<noteq> Inr []"
  by (simp add: empty_tree_first empty_tree_second) (simp add: loaded_def)

lemma folders_tree_returns:
  "isl (fst (check_branch quiet_shell ''main'' (loaded True folders_tree))) = False"
  "isl (fst (check_branch quiet_shell ''main''
          (snd (check_branch quiet_shell ''main'' (loaded True folders_tree))))) = False"
  "isl (fst (check_branch quiet_shell ''main'' (snd (check_branch quiet_shell ''main''
          (snd (check_branch quiet_shell ''main'' (loaded True folders_tree))))))) = False"
  by code_simp+

lemma folders_tree_holds:
  "\<forall>(folder, files) \<in> set (REQUIRED_STRUCTURE (loaded True folders_tree)).
     os_path_exists (worktree (snd (checkout quiet_shell ''main'' (loaded True folders_tree)))) folder"
  by code_simp

lemma returns_Inr: "isl (fst p) = False \<Longrightarrow> \<exists>m. p = (Inr m, snd p)"
  by (cases p; cases "fst p") simp_all

theorem check_branch_thrice_witness:
  "AUTO_FIX (loaded True Map.empty)
   \<and> fst (check_branch quiet_shell ''main'' (snd (check_branch quiet_shell ''main''
          (snd (check_branch quiet_shell ''main'' (loaded True Map.empty)))))) = Inr []
   \<and> AUTO_FIX (loaded True folders_tree)
   \<and> fst (check_branch quiet_shell ''main''
          (snd (check_branch quiet_shell ''main'' (loaded True folders_tree)))) = Inr []"
proof -
  let ?s0 = "loaded True Map.empty"
  let ?s1 = "snd (check_branch quiet_shell ''main'' ?s0)"
  let ?s2 = "snd (check_branch quiet_shell ''main'' ?s1)"
  let ?s3 = "snd (check_branch quiet_shell ''main'' ?s2)"
  have h1: "AUTO_FIX ?s0" by (simp add: loaded_def)
  obtain m1 where h2: "check_branch quiet_shell ''main'' ?s0 = (Inr m1, ?s1)"
    using empty_tree_first by (cases "check_branch quiet_shell ''main'' ?s0") simp
  obtain m2 where h3: "check_branch quiet_shell ''main'' ?s1 = (Inr m2, ?s2)"
    using empty_tree_second by (cases "check_branch quiet_shell ''main'' ?s1") simp
  obtain m3 where h4: "check_branch quiet_shell ''main'' ?s2 = (Inr m3, ?s3)"
    using returns_Inr[OF empty_tree_third_returns] by blast
  have h5: "worktree (snd (checkout quiet_shell ''main'' ?s1)) = worktree ?s1"
    and h6: "worktree (snd (checkout quiet_shell ''main'' ?s2)) = worktree ?s2"
    by (simp_all add: checkout_quiet)
  from check_branch_thrice[OF h1 h2 h3 h4 h5 h6] have "m3 = []" by blast
  with arg_cong[OF h4, of fst] have first: "fst (check_branch quiet_shell ''main'' ?s2) = Inr []"
    by simp
  let ?u0 = "loaded True folders_tree"
  let ?u1 = "snd (check_branch quiet_shell ''main'' ?u0)"
  let ?u2 = "snd (check_branch quiet_shell ''main'' ?u1)"
  let ?u3 = "snd (check_branch quiet_shell ''main'' ?u2)"
  have k1: "AUTO_FIX ?u0" by (simp add: loaded_def)
  obtain n1 where k2: "check_branch quiet_shell ''main'' ?u0 = (Inr n1, ?u1)"
    using returns_Inr[OF folders_tree_returns(1)] by blast
  obtain n2 where k3: "check_branch quiet_shell ''main'' ?u1 = (Inr n2, ?u2)"
    using returns_Inr[OF folders_tree_returns(2)] by blast
  obtain n3 where k4: "check_branch quiet_shell ''main'' ?u2 = (Inr n3, ?u3)"
    using returns_Inr[OF folders_tree_returns(3)] by blast
  have k5: "worktree (snd (checkout quiet_shell ''main'' ?u1)) = worktree ?u1"
    and k6: "worktree (snd (checkout quiet_shell ''main'' ?u2)) = worktree ?u2"
    by (simp_all add: checkout_quiet)
  from check_branch_thrice[OF k1 k2 k3 k4 k5 k6] folders_tree_holds have "n2 = []" by blast
  with arg_cong[OF k3, of fst] have second: "fst (check_branch quiet_shell ''main'' ?u1) = Inr []"
    by simp
  from h1 first k1 second show ?thesis by blast
qed

subsection \<open>What a pass touches and what it reports\<close>

lemma map_le_Some: "t \<subseteq>\<^sub>m t' \<Longrightarrow> t p = Some n \<Longrightarrow> t' p = Some n"
  by (auto simp: map_le_def dom_def)

lemma os_makedirs_frame:
  "os_makedirs name t = (r, t') \<Longrightarrow> t' p \<noteq> t p \<Longrightarrow> leads_to p (path_of name)"
  unfolding os_makedirs_def leads_to_def
  by (drule makedirs_from_frame) auto

lemma check_files_frame:
  "check_files folder files missing s = (r, s') \<Longrightarrow> worktree s' p \<noteq> worktree s p \<Longrightarrow>
   \<exists>f \<in> set files. p = path_of (os_path_join folder f)"
proof (induction files arbitrary: missing s)
  case Nil
  then show ?case by simp
next
  case (Cons f files)
  let ?path = "os_path_join folder f"
  show ?case
  proof (cases "\<not> os_path_exists (worktree s) ?path \<and> AUTO_FIX s")
    case False
    with Cons.prems have "\<exists>m1. check_files folder files m1 s = (r, s')"
      by (auto simp: Let_def split: if_splits)
    with Cons.IH Cons.prems(2) show ?thesis by auto
  next
    case True
    obtain w t where w: "write_file ?path (placeholder f) (worktree s) = (w, t)"
      by (cases "write_file ?path (placeholder f) (worktree s)")
    show ?thesis
    proof (cases "p = path_of ?path")
      case True
      then show ?thesis by simp
    next
      case other: False
      from write_file_frame[OF w other] have same: "t p = worktree s p" .
      show ?thesis
      proof (cases w)
        case (Inl e)
        with Cons.prems True w same show ?thesis by (auto simp: Let_def)
      next
        case (Inr u)
        with Cons.prems(1) True w
        have rest: "check_files folder files (missing @ [missing_file ?path]) (s\<lparr>worktree := t\<rparr>) = (r, s')"
          by (simp add: Let_def)
        from Cons.prems(2) same have "worktree s' p \<noteq> worktree (s\<lparr>worktree := t\<rparr>) p"
          by simp
        from Cons.IH[OF rest this] show ?thesis by auto
      qed
    qed
  qed
qed

lemma file_pairs_iff:
  "(G, g) \<in> set (file_pairs d) \<longleftrightarrow> (\<exists>gl. (G, gl) \<in> set d \<and> g \<in> set gl)"
  by (induction d) (auto simp: file_pairs_def)

lemma check_files_entries:
  "check_files folder files missing s = (Inr missing', s') \<Longrightarrow>
   set missing' \<subseteq> set missing \<union> (\<lambda>f. missing_file (os_path_join folder f)) ` set files"
proof (induction files arbitrary: missing s)
  case Nil
  then show ?case by simp
next
  case (Cons f files)
  from Cons.prems show ?case
    by (auto simp: Let_def split: if_splits prod.splits sum.splits dest!: Cons.IH)
qed

text \<open>The step of the outer loop on one item of the manifest.\<close>

lemma check_folders_Cons:
  "check_folders (item # items) missing s =
     (case check_folders [item] missing s of
        (Inl e, s1) \<Rightarrow> (Inl e, s1)
      | (Inr m1, s1) \<Rightarrow> check_folders items m1 s1)"
  by (cases item) (auto simp: Let_def split: prod.splits sum.splits)

lemma check_folders_Cons_Inr:
  assumes "check_folders (item # items) missing s = (Inr missing', s')"
  obtains m1 s1 where "check_folders [item] missing s = (Inr m1, s1)"
    and "check_folders items m1 s1 = (Inr missing', s')"
  using assms unfolding check_folders_Cons[of item items]
  by (auto split: prod.splits sum.splits)

lemma check_folders_single_frame:
  assumes "check_folders [(G, gl)] missing s = (r, s')" and "worktree s' p \<noteq> worktree s p"
  shows "leads_to p (path_of G) \<or> (\<exists>g \<in> set gl. p = path_of (os_path_join G g))"
proof (cases "os_path_exists (worktree s) G")
  case True
  with assms(1) have "check_files G gl missing s = (r, s')"
    by (auto split: prod.splits sum.splits)
  from check_files_frame[OF this assms(2)] show ?thesis by blast
next
  case False
  show ?thesis
  proof (cases "AUTO_FIX s")
    case True
    obtain r1 t where t: "os_makedirs G (worktree s) = (r1, t)"
      by (cases "os_makedirs G (worktree s)")
    with assms(1) False True have "s' = s\<lparr>worktree := t\<rparr>"
      by (cases r1) (simp_all add: Let_def)
    with assms(2) have "t p \<noteq> worktree s p" by simp
    from os_makedirs_frame[OF t this] show ?thesis by blast
  next
    case off: False
    with assms False show ?thesis by (simp add: Let_def)
  qed
qed

lemma check_folders_single_entries:
  assumes "check_folders [(G, gl)] missing s = (Inr missing', s')"
  shows "set missing' \<subseteq> set missing \<union> {missing_folder G}
     \<union> (\<lambda>g. missing_file (os_path_join G g)) ` set gl"
proof (cases "os_path_exists (worktree s) G")
  case True
  with assms have "check_files G gl missing s = (Inr missing', s')"
    by (auto split: prod.splits sum.splits)
  from check_files_entries[OF this] show ?thesis by blast
next
  case False
  with assms have "missing' = missing @ [missing_folder G]"
    by (auto simp: Let_def split: if_splits prod.splits sum.splits)
  then show ?thesis by auto
qed

lemma subset_chain:
  "X \<subseteq> A \<union> {b} \<union> C \<Longrightarrow> Y \<subseteq> X \<union> D \<union> E \<Longrightarrow> C \<subseteq> F \<Longrightarrow> E \<subseteq> F \<Longrightarrow>
   Y \<subseteq> A \<union> insert b D \<union> F"
  by blast

lemma check_folders_entries:
  "check_folders items missing s = (Inr missing', s') \<Longrightarrow>
   set missing' \<subseteq> set missing \<union> missing_folder ` fst ` set items
     \<union> (\<lambda>(G, g). missing_file (os_path_join G g)) ` set (file_pairs items)"
proof (induction items arbitrary: missing s)
  case Nil
  then show ?case by simp
next
  case (Cons item items)
  obtain G gl where item: "item = (G, gl)" by (cases item)
  from Cons.prems obtain m1 s1 where one: "check_folders [(G, gl)] missing s = (Inr m1, s1)"
    and rest: "check_folders items m1 s1 = (Inr missing', s')"
    unfolding item by (rule check_folders_Cons_Inr)
  note a = check_folders_single_entries[OF one] and b = Cons.IH[OF rest]
  have "\<And>g. g \<in> set gl \<Longrightarrow> (G, g) \<in> set (file_pairs ((G, gl) # items))"
    by (auto simp: file_pairs_iff)
  then have c: "(\<lambda>g. missing_file (os_path_join G g)) ` set gl
      \<subseteq> (\<lambda>(G, g). missing_file (os_path_join G g)) ` set (file_pairs ((G, gl) # items))"
    by force
  have "set (file_pairs items) \<subseteq> set (file_pairs ((G, gl) # items))"
    by (auto simp: file_pairs_iff)
  then have d: "(\<lambda>(G, g). missing_file (os_path_join G g)) ` set (file_pairs items)
      \<subseteq> (\<lambda>(G, g). missing_file (os_path_join G g)) ` set (file_pairs ((G, gl) # items))"
    by (rule image_mono)
  have e: "missing_folder ` fst ` set ((G, gl) # items)
      = insert (missing_folder G) (missing_folder ` fst ` set items)"
    by simp
  show ?case
    unfolding item e by (rule subset_chain[OF a b c d])
qed

lemma entry_simps:
  "missing_folder a \<noteq> missing_file b" "missing_file b \<noteq> missing_folder a"
  "missing_file a = missing_file b \<longleftrightarrow> a = b"
  "missing_folder a = missing_folder b \<longleftrightarrow> a = b"
  by (simp_all add: missing_folder_def missing_file_def)

subsection \<open>A folder that is absent\<close>

lemma check_folders_single_state:
  "check_folders [item] missing s = (r, s') \<Longrightarrow> AUTO_FIX s' = AUTO_FIX s"
  by (drule check_folders_state) simp

lemma check_folders_single_absent:
  assumes "check_folders [(F, files)] missing s = (Inr missing', s')"
    and "\<not> os_path_exists (worktree s) F"
  shows "missing' = missing @ [missing_folder F] \<and> (AUTO_FIX s \<longrightarrow> worktree s' (path_of F) = Some Dir)"
proof (cases "AUTO_FIX s")
  case True
  obtain r1 t where t: "os_makedirs F (worktree s) = (r1, t)"
    by (cases "os_makedirs F (worktree s)")
  with assms True have "r1 = Inr ()" "missing' = missing @ [missing_folder F]" "s' = s\<lparr>worktree := t\<rparr>"
    by (cases r1; simp add: Let_def)+
  with os_makedirs_made_dir[of F "worktree s" "()" t] t show ?thesis
    by simp
next
  case False
  with assms show ?thesis by (simp add: Let_def)
qed

lemma absent_folder:
  assumes "check_folders items missing s = (Inr missing', s')"
    and "(F, files) \<in> set items"
    and "distinct (map fst items)"
    and "\<not> os_path_exists (worktree s) F"
    and "\<forall>(G, gl) \<in> set items. G \<noteq> F \<longrightarrow> \<not> leads_to (path_of F) (path_of G)"
    and "\<forall>(G, g) \<in> set (file_pairs items). G \<noteq> F \<longrightarrow>
           path_of (os_path_join G g) \<noteq> path_of F \<and> (\<forall>f \<in> set files. os_path_join G g \<noteq> os_path_join F f)"
  shows "missing_folder F \<in> set missing'
    \<and> (AUTO_FIX s \<longrightarrow> worktree s' (path_of F) = Some Dir)
    \<and> (\<forall>f \<in> set files. missing_file (os_path_join F f) \<notin> set missing \<longrightarrow>
          missing_file (os_path_join F f) \<notin> set missing')"
  using assms
proof (induction items arbitrary: missing s)
  case Nil
  then show ?case by simp
next
  case (Cons item items)
  obtain G gl where item: "item = (G, gl)" by (cases item)
  from Cons.prems(1) obtain m1 s1 where one: "check_folders [(G, gl)] missing s = (Inr m1, s1)"
    and rest: "check_folders items m1 s1 = (Inr missing', s')"
    unfolding item by (rule check_folders_Cons_Inr)
  show ?case
  proof (cases "G = F")
    case True
    from Cons.prems(3) have notin: "F \<notin> fst ` set items"
      by (simp add: item True)
    with Cons.prems(2) have same: "gl = files"
      by (force simp: item True)
    from check_folders_single_absent[OF one[unfolded True] Cons.prems(4)]
    have m1: "m1 = missing @ [missing_folder F]"
      and made: "AUTO_FIX s \<longrightarrow> worktree s1 (path_of F) = Some Dir"
      by simp_all
    from check_folders_keeps[OF rest] m1 have "missing_folder F \<in> set missing'"
      by auto
    moreover from made check_folders_mono[OF rest]
    have "AUTO_FIX s \<longrightarrow> worktree s' (path_of F) = Some Dir"
      by (auto intro: map_le_Some)
    moreover have "missing_file (os_path_join F f) \<notin> set missing'"
      if f: "f \<in> set files" and old: "missing_file (os_path_join F f) \<notin> set missing" for f
    proof
      assume "missing_file (os_path_join F f) \<in> set missing'"
      with check_folders_entries[OF rest] m1 old
      have "missing_file (os_path_join F f) \<in>
          (\<lambda>(G, g). missing_file (os_path_join G g)) ` set (file_pairs items)"
        by (auto simp: entry_simps)
      then obtain G' g where Gg: "(G', g) \<in> set (file_pairs items)"
        "os_path_join G' g = os_path_join F f"
        by (auto simp: entry_simps)
      from Gg(1) have "G' \<in> fst ` set items"
        by (force simp: file_pairs_iff)
      with notin have "G' \<noteq> F" by auto
      moreover from Gg(1) have "(G', g) \<in> set (file_pairs (item # items))"
        by (auto simp: file_pairs_iff)
      ultimately show False
        using Cons.prems(6) f Gg(2) by fastforce
    qed
    ultimately show ?thesis by blast
  next
    case False
    with Cons.prems(2) have mem: "(F, files) \<in> set items"
      by (auto simp: item)
    from Cons.prems(3) have dist: "distinct (map fst items)" by simp
    have heads: "\<forall>g \<in> set gl. path_of (os_path_join G g) \<noteq> path_of F \<and>
        (\<forall>f \<in> set files. os_path_join G g \<noteq> os_path_join F f)"
    proof
      fix g assume "g \<in> set gl"
      then have "(G, g) \<in> set (file_pairs (item # items))"
        by (auto simp: file_pairs_iff item)
      with Cons.prems(6) False show "path_of (os_path_join G g) \<noteq> path_of F \<and>
        (\<forall>f \<in> set files. os_path_join G g \<noteq> os_path_join F f)"
        by fastforce
    qed
    from Cons.prems(5) False have nolead: "\<not> leads_to (path_of F) (path_of G)"
      by (auto simp: item)
    have "worktree s1 (path_of F) = worktree s (path_of F)"
    proof (rule ccontr)
      assume "worktree s1 (path_of F) \<noteq> worktree s (path_of F)"
      from check_folders_single_frame[OF one this] nolead heads show False
        by auto
    qed
    with Cons.prems(4) have absent1: "\<not> os_path_exists (worktree s1) F"
      by (simp add: os_path_exists_def)
    have leads1: "\<forall>(G, gl) \<in> set items. G \<noteq> F \<longrightarrow> \<not> leads_to (path_of F) (path_of G)"
      using Cons.prems(5) by simp
    have "set (file_pairs items) \<subseteq> set (file_pairs (item # items))"
      by (auto simp: file_pairs_iff)
    with Cons.prems(6) have pairs1: "\<forall>(G, g) \<in> set (file_pairs items). G \<noteq> F \<longrightarrow>
           path_of (os_path_join G g) \<noteq> path_of F \<and> (\<forall>f \<in> set files. os_path_join G g \<noteq> os_path_join F f)"
      by blast
    note ih = Cons.IH[OF rest mem dist absent1 leads1 pairs1]
    have kept: "missing_file (os_path_join F f) \<notin> set m1"
      if f: "f \<in> set files" and old: "missing_file (os_path_join F f) \<notin> set missing" for f
    proof
      assume "missing_file (os_path_join F f) \<in> set m1"
      with check_folders_single_entries[OF one] old
      have "missing_file (os_path_join F f) \<in> (\<lambda>g. missing_file (os_path_join G g)) ` set gl"
        by (auto simp: entry_simps)
      then obtain g where "g \<in> set gl" "os_path_join G g = os_path_join F f"
        by (auto simp: entry_simps)
      with heads f show False by auto
    qed
    from ih kept check_folders_single_state[OF one] show ?thesis
      by auto
  qed
qed

subsection \<open>A file that is absent from a folder that exists\<close>

lemma check_files_creates:
  assumes "check_files folder files missing s = (Inr missing', s')"
    and "AUTO_FIX s"
    and "f \<in> set files"
    and "\<not> os_path_exists (worktree s) (os_path_join folder f)"
    and "\<forall>g \<in> set files. path_of (os_path_join folder g) = path_of (os_path_join folder f) \<longrightarrow> g = f"
  shows "missing_file (os_path_join folder f) \<in> set missing'
    \<and> worktree s' (path_of (os_path_join folder f)) = Some (File (placeholder f))"
  using assms
proof (induction files arbitrary: missing s)
  case Nil
  then show ?case by simp
next
  case (Cons g files)
  let ?path = "os_path_join folder g"
  show ?case
  proof (cases "g = f")
    case True
    obtain r1 t where t: "write_file ?path (placeholder g) (worktree s) = (r1, t)"
      by (cases "write_file ?path (placeholder g) (worktree s)")
    with Cons.prems(1,2,4) True have r1: "r1 = Inr ()"
      and rest: "check_files folder files (missing @ [missing_file ?path]) (s\<lparr>worktree := t\<rparr>) = (Inr missing', s')"
      by (cases r1; simp add: Let_def)+
    from write_file_made[OF t[unfolded r1]] have "t (path_of ?path) = Some (File (placeholder g))" .
    with check_files_mono[OF rest]
    have "worktree s' (path_of ?path) = Some (File (placeholder g))"
      by (auto intro: map_le_Some)
    moreover from check_files_keeps[OF rest] have "missing_file ?path \<in> set missing'"
      by auto
    ultimately show ?thesis by (simp add: True)
  next
    case False
    with Cons.prems(3) have mem: "f \<in> set files" by simp
    from Cons.prems(5) False have other: "path_of ?path \<noteq> path_of (os_path_join folder f)"
      by auto
    have "\<exists>m1 s1. check_files folder files m1 s1 = (Inr missing', s') \<and> AUTO_FIX s1
        \<and> worktree s1 (path_of (os_path_join folder f)) = worktree s (path_of (os_path_join folder f))"
    proof (cases "os_path_exists (worktree s) ?path")
      case True
      with Cons.prems(1,2) show ?thesis by (auto simp: Let_def)
    next
      case absent: False
      obtain r1 t where t: "write_file ?path (placeholder g) (worktree s) = (r1, t)"
        by (cases "write_file ?path (placeholder g) (worktree s)")
      with Cons.prems(1,2) absent have r1: "r1 = Inr ()"
        and rest: "check_files folder files (missing @ [missing_file ?path]) (s\<lparr>worktree := t\<rparr>) = (Inr missing', s')"
        by (cases r1; simp add: Let_def)+
      from write_file_frame[OF t other[symmetric]] rest Cons.prems(2)
      have "check_files folder files (missing @ [missing_file ?path]) (s\<lparr>worktree := t\<rparr>) = (Inr missing', s')
          \<and> AUTO_FIX (s\<lparr>worktree := t\<rparr>)
          \<and> worktree (s\<lparr>worktree := t\<rparr>) (path_of (os_path_join folder f)) = worktree s (path_of (os_path_join folder f))"
        by simp
      then show ?thesis by blast
    qed
    then obtain m1 s1 where rest: "check_files folder files m1 s1 = (Inr missing', s')"
      and on1: "AUTO_FIX s1"
      and same: "worktree s1 (path_of (os_path_join folder f)) = worktree s (path_of (os_path_join folder f))"
      by blast
    from same Cons.prems(4) have absent1: "\<not> os_path_exists (worktree s1) (os_path_join folder f)"
      by (simp add: os_path_exists_def)
    from Cons.prems(5) have uniq: "\<forall>g \<in> set files.
        path_of (os_path_join folder g) = path_of (os_path_join folder f) \<longrightarrow> g = f"
      by simp
    from Cons.IH[OF rest on1 mem absent1 uniq] show ?thesis .
  qed
qed

lemma absent_file:
  assumes "check_folders items missing s = (Inr missing', s')"
    and "AUTO_FIX s"
    and "(F, files) \<in> set items" and "f \<in> set files"
    and "os_path_exists (worktree s) F"
    and "\<not> os_path_exists (worktree s) (os_path_join F f)"
    and "\<forall>(G, gl) \<in> set items. \<not> leads_to (path_of (os_path_join F f)) (path_of G)"
    and "\<forall>(G, g) \<in> set (file_pairs items).
           path_of (os_path_join G g) = path_of (os_path_join F f) \<longrightarrow> G = F \<and> g = f"
  shows "missing_file (os_path_join F f) \<in> set missing'
    \<and> worktree s' (path_of (os_path_join F f)) = Some (File (placeholder f))"
  using assms
proof (induction items arbitrary: missing s)
  case Nil
  then show ?case by simp
next
  case (Cons item items)
  let ?P = "path_of (os_path_join F f)"
  obtain G gl where item: "item = (G, gl)" by (cases item)
  from Cons.prems(1) obtain m1 s1 where one: "check_folders [(G, gl)] missing s = (Inr m1, s1)"
    and rest: "check_folders items m1 s1 = (Inr missing', s')"
    unfolding item by (rule check_folders_Cons_Inr)
  have heads: "\<forall>g \<in> set gl. path_of (os_path_join G g) = ?P \<longrightarrow> G = F \<and> g = f"
  proof
    fix g assume "g \<in> set gl"
    then have "(G, g) \<in> set (file_pairs (item # items))"
      by (auto simp: file_pairs_iff item)
    with Cons.prems(8) show "path_of (os_path_join G g) = ?P \<longrightarrow> G = F \<and> g = f"
      by fastforce
  qed
  show ?case
  proof (cases "G = F \<and> f \<in> set gl")
    case True
    with one Cons.prems(5) have files: "check_files F gl missing s = (Inr m1, s1)"
      by (auto split: prod.splits sum.splits)
    from heads True have "\<forall>g \<in> set gl. path_of (os_path_join F g) = ?P \<longrightarrow> g = f"
      by auto
    from check_files_creates[OF files Cons.prems(2) _ Cons.prems(6) this] True
    have "missing_file (os_path_join F f) \<in> set m1" "worktree s1 ?P = Some (File (placeholder f))"
      by simp_all
    with check_folders_keeps[OF rest] check_folders_mono[OF rest] show ?thesis
      by (auto intro: map_le_Some)
  next
    case False
    with Cons.prems(3,4) have mem: "(F, files) \<in> set items"
      by (auto simp: item)
    from Cons.prems(7) have nolead: "\<not> leads_to ?P (path_of G)"
      by (simp add: item)
    have "worktree s1 ?P = worktree s ?P"
    proof (rule ccontr)
      assume "worktree s1 ?P \<noteq> worktree s ?P"
      from check_folders_single_frame[OF one this] nolead
      obtain g where "g \<in> set gl" "?P = path_of (os_path_join G g)"
        by blast
      with heads False show False by auto
    qed
    with Cons.prems(6) have absent1: "\<not> os_path_exists (worktree s1) (os_path_join F f)"
      by (simp add: os_path_exists_def)
    from check_folders_mono[OF one] Cons.prems(5) have here1: "os_path_exists (worktree s1) F"
      by (rule exists_mono)
    from check_folders_single_state[OF one] Cons.prems(2) have on1: "AUTO_FIX s1"
      by simp
    from Cons.prems(7) have leads1: "\<forall>(G, gl) \<in> set items. \<not> leads_to ?P (path_of G)"
      by simp
    have "set (file_pairs items) \<subseteq> set (file_pairs (item # items))"
      by (auto simp: file_pairs_iff)
    with Cons.prems(8) have pairs1: "\<forall>(G, g) \<in> set (file_pairs items).
           path_of (os_path_join G g) = ?P \<longrightarrow> G = F \<and> g = f"
      by blast
    from Cons.IH[OF rest on1 mem Cons.prems(4) here1 absent1 leads1 pairs1] show ?thesis .
  qed
qed

subsection \<open>The manifest of the program\<close>

lemma separate_loaded: "separate (case build_structure MAGICIANS of Inl e \<Rightarrow> [] | Inr d \<Rightarrow> d)"
  by code_simp

lemma separate_built: "build_structure MAGICIANS = Inr d \<Longrightarrow> separate d"
  using separate_loaded by simp

lemma leads_to_self: "leads_to p p"
  by (simp add: leads_to_def)

lemma separate_folders:
  assumes "separate d" and "(F, files) \<in> set d"
  shows "\<forall>(G, gl) \<in> set d. G \<noteq> F \<longrightarrow> \<not> leads_to (path_of F) (path_of G)"
  using assms unfolding separate_def list_all_iff by fastforce

lemma separate_file_leads:
  assumes "separate d" and "(F, files) \<in> set d" and "f \<in> set files"
  shows "\<forall>(G, gl) \<in> set d. \<not> leads_to (path_of (os_path_join F f)) (path_of G)"
proof -
  from assms(2,3) have "(F, f) \<in> set (file_pairs d)"
    by (auto simp: file_pairs_iff)
  with assms(1) show ?thesis
    unfolding separate_def list_all_iff by fastforce
qed

lemma separate_file_unique:
  assumes "separate d" and "(F, f) \<in> set (file_pairs d)" and "(G, g) \<in> set (file_pairs d)"
    and "path_of (os_path_join G g) = path_of (os_path_join F f)"
  shows "G = F \<and> g = f"
proof -
  let ?h = "\<lambda>(folder, f). path_of (os_path_join folder f)"
  from assms(1) have "inj_on ?h (set (file_pairs d))"
    unfolding separate_def by (simp add: distinct_map)
  from inj_onD[OF this, of "(G, g)" "(F, f)"] assms(2,3,4) show ?thesis
    by simp
qed

lemma separate_pairs:
  assumes "separate d" and "(F, files) \<in> set d"
  shows "\<forall>(G, g) \<in> set (file_pairs d). G \<noteq> F \<longrightarrow>
           path_of (os_path_join G g) \<noteq> path_of F \<and> (\<forall>f \<in> set files. os_path_join G g \<noteq> os_path_join F f)"
proof (intro ballI, clarify)
  fix G g assume Gg: "(G, g) \<in> set (file_pairs d)" and ne: "G \<noteq> F"
  then obtain gl where gl: "(G, gl) \<in> set d" "g \<in> set gl"
    by (auto simp: file_pairs_iff)
  from separate_file_leads[OF assms(1) gl] assms(2)
  have "\<not> leads_to (path_of (os_path_join G g)) (path_of F)"
    by fastforce
  then have a: "path_of (os_path_join G g) \<noteq> path_of F"
    using leads_to_self by metis
  have b: "\<forall>f \<in> set files. os_path_join G g \<noteq> os_path_join F f"
  proof
    fix f assume "f \<in> set files"
    with assms(2) have "(F, f) \<in> set (file_pairs d)"
      by (auto simp: file_pairs_iff)
    from separate_file_unique[OF assms(1) this Gg] ne
    show "os_path_join G g \<noteq> os_path_join F f"
      by auto
  qed
  from a b show "path_of (os_path_join G g) \<noteq> path_of F \<and>
    (\<forall>f \<in> set files. os_path_join G g \<noteq> os_path_join F f)"
    by simp
qed

text \<open>
  Claim C2. In an audit that returns a list, with \<^verbatim>\<open>AUTO_FIX\<close> on or off: for every
  folder of the program's manifest that is absent from the working tree that the
  checkout leaves, the list holds the entry \<^verbatim>\<open>Missing folder:\<close> of the folder, and
  holds no \<^verbatim>\<open>Missing file:\<close> entry for any required file of that folder.
\<close>

theorem absent_folder_entries:
  assumes "build_structure MAGICIANS = Inr (REQUIRED_STRUCTURE s)"
    and "check_branch sh branch s = (Inr missing, s')"
    and "(folder, files) \<in> set (REQUIRED_STRUCTURE s)"
    and "\<not> os_path_exists (worktree (snd (checkout sh branch s))) folder"
  shows "missing_folder folder \<in> set missing
    \<and> (\<forall>f \<in> set files. missing_file (os_path_join folder f) \<notin> set missing)"
proof -
  let ?M = "REQUIRED_STRUCTURE s"
  from check_branch_Inr[OF assms(2)] obtain out c where
    c: "checkout sh branch s = (Inr out, c)" "check_folders ?M [] c = (Inr missing, s')"
    by blast
  from assms(4) c(1) have absent: "\<not> os_path_exists (worktree c) folder"
    by simp
  have sep: "separate ?M"
    by (rule separate_built[OF assms(1)])
  then have keys: "distinct (map fst ?M)"
    by (simp add: separate_def)
  from absent_folder[OF c(2) assms(3) keys absent
      separate_folders[OF sep assms(3)] separate_pairs[OF sep assms(3)]]
  show ?thesis by simp
qed

text \<open>The audit of the tree with the folder \<^verbatim>\<open>config\<close> alone.\<close>

lemma config_tree_returns:
  "isl (fst (check_branch quiet_shell ''main'' (loaded True config_tree))) = False"
  "isl (fst (check_branch quiet_shell ''main'' (loaded False config_tree))) = False"
  by code_simp+

lemma loaded_built: "build_structure MAGICIANS = Inr (REQUIRED_STRUCTURE (loaded fix t))"
  by (simp add: loaded_def built)

lemma config_tree_paths:
  "\<not> os_path_exists (worktree (snd (checkout quiet_shell ''main'' (loaded fix config_tree)))) ''orchestration''"
  "\<not> os_path_exists (worktree (snd (checkout quiet_shell ''main'' (loaded fix config_tree)))) ''api''"
  "os_path_exists (worktree (snd (checkout quiet_shell ''main'' (loaded fix config_tree)))) ''config''"
  "\<not> os_path_exists (worktree (snd (checkout quiet_shell ''main'' (loaded fix config_tree))))
       (os_path_join ''config'' ''settings.py'')"
  by (simp_all add: checkout_quiet loaded_def config_tree_def tree_of_def os_path_exists_def
      path_of_def os_path_join_def)

lemma loaded_items:
  "(''orchestration'', [''base_magician.py'', ''router.py'', ''job_magician.py'',
      ''business_magician.py'', ''developer_magician.py'']) \<in> set (REQUIRED_STRUCTURE (loaded fix t))"
  "(''api'', [''routes_job.py'', ''routes_business.py'', ''routes_developer.py''])
     \<in> set (REQUIRED_STRUCTURE (loaded fix t))"
  "(''config'', [''settings.py'']) \<in> set (REQUIRED_STRUCTURE (loaded fix t))"
  by (simp_all add: loaded_def built)

theorem absent_folder_entries_witness:
  "(\<exists>missing s'. check_branch quiet_shell ''main'' (loaded True config_tree) = (Inr missing, s')
      \<and> missing_folder ''orchestration'' \<in> set missing
      \<and> missing_file ''orchestration/router.py'' \<notin> set missing)
   \<and> (\<exists>missing s'. check_branch quiet_shell ''main'' (loaded False config_tree) = (Inr missing, s')
      \<and> missing_folder ''orchestration'' \<in> set missing
      \<and> missing_file ''orchestration/router.py'' \<notin> set missing)"
proof -
  have "\<exists>missing s'. check_branch quiet_shell ''main'' (loaded af config_tree) = (Inr missing, s')
      \<and> missing_folder ''orchestration'' \<in> set missing
      \<and> missing_file ''orchestration/router.py'' \<notin> set missing"
    if ret: "isl (fst (check_branch quiet_shell ''main'' (loaded af config_tree))) = False" for af
  proof -
    from returns_Inr[OF ret] obtain missing where
      m: "check_branch quiet_shell ''main'' (loaded af config_tree)
          = (Inr missing, snd (check_branch quiet_shell ''main'' (loaded af config_tree)))"
      by blast
    from absent_folder_entries[OF loaded_built m loaded_items(1) config_tree_paths(1)]
    have "missing_folder ''orchestration'' \<in> set missing"
      and "missing_file (os_path_join ''orchestration'' ''router.py'') \<notin> set missing"
      by simp_all
    then have "missing_folder ''orchestration'' \<in> set missing
      \<and> missing_file ''orchestration/router.py'' \<notin> set missing"
      by (simp add: os_path_join_def)
    with m show ?thesis by blast
  qed
  from this[OF config_tree_returns(1)] this[OF config_tree_returns(2)] show ?thesis
    by (rule conjI)
qed

subsection \<open>Repair\<close>

text \<open>
  Claim C5 as stated fails on the tree with the folder \<^verbatim>\<open>config\<close> alone: the audit
  returns, the missing file \<^verbatim>\<open>config/settings.py\<close> of this existing folder is
  reported and created, but the placeholder that is written ends with a newline, so
  its content is not the text of the claim.
\<close>

theorem repair_counterexample:
  "AUTO_FIX (loaded True config_tree)
   \<and> os_path_exists config_tree ''config''
   \<and> \<not> os_path_exists config_tree ''config/settings.py''
   \<and> (case fst (check_branch quiet_shell ''main'' (loaded True config_tree)) of
         Inl e \<Rightarrow> False
       | Inr missing \<Rightarrow> ''Missing file: config/settings.py'' \<in> set missing)
   \<and> worktree (snd (check_branch quiet_shell ''main'' (loaded True config_tree))) [''config'', ''settings.py'']
       = Some (File (''# Auto-generated placeholder for settings.py'' @ [newline]))
   \<and> worktree (snd (check_branch quiet_shell ''main'' (loaded True config_tree))) [''config'', ''settings.py'']
       \<noteq> Some (File ''# Auto-generated placeholder for settings.py'')"
  by code_simp

text \<open>
  Claim C5, as amended. In an audit with \<^verbatim>\<open>AUTO_FIX\<close> on that returns a list, for every
  folder of the program's manifest: when the folder is absent from the tree that the
  checkout leaves, the list holds its \<^verbatim>\<open>Missing folder:\<close> entry and the folder is a
  directory afterwards; when the folder exists there, every required file of it that is
  absent has its \<^verbatim>\<open>Missing file:\<close> entry in the list and is afterwards a file whose
  content is \<^verbatim>\<open># Auto-generated placeholder for f\<close> followed by a newline.
\<close>

theorem repair_reports_and_creates:
  assumes "build_structure MAGICIANS = Inr (REQUIRED_STRUCTURE s)"
    and "AUTO_FIX s"
    and "check_branch sh branch s = (Inr missing, s')"
    and "(folder, files) \<in> set (REQUIRED_STRUCTURE s)"
  shows "(\<not> os_path_exists (worktree (snd (checkout sh branch s))) folder \<longrightarrow>
            missing_folder folder \<in> set missing \<and> worktree s' (path_of folder) = Some Dir)
    \<and> (os_path_exists (worktree (snd (checkout sh branch s))) folder \<longrightarrow>
          (\<forall>f \<in> set files.
             \<not> os_path_exists (worktree (snd (checkout sh branch s))) (os_path_join folder f) \<longrightarrow>
             missing_file (os_path_join folder f) \<in> set missing
             \<and> worktree s' (path_of (os_path_join folder f))
                 = Some (File (''# Auto-generated placeholder for '' @ f @ [newline]))))"
proof -
  let ?M = "REQUIRED_STRUCTURE s"
  from check_branch_Inr[OF assms(3)] assms(2) obtain out c where
    c: "checkout sh branch s = (Inr out, c)" "check_folders ?M [] c = (Inr missing, s')" "AUTO_FIX c"
    by auto
  have sep: "separate ?M"
    by (rule separate_built[OF assms(1)])
  then have keys: "distinct (map fst ?M)"
    by (simp add: separate_def)
  have a: "missing_folder folder \<in> set missing \<and> worktree s' (path_of folder) = Some Dir"
    if absent: "\<not> os_path_exists (worktree c) folder"
    using absent_folder[OF c(2) assms(4) keys absent
        separate_folders[OF sep assms(4)] separate_pairs[OF sep assms(4)]] c(3)
    by simp
  have b: "missing_file (os_path_join folder f) \<in> set missing
      \<and> worktree s' (path_of (os_path_join folder f)) = Some (File (placeholder f))"
    if here: "os_path_exists (worktree c) folder" and f: "f \<in> set files"
      and absent: "\<not> os_path_exists (worktree c) (os_path_join folder f)" for f
  proof -
    from assms(4) f have pair: "(folder, f) \<in> set (file_pairs ?M)"
      by (auto simp: file_pairs_iff)
    have uniq: "\<forall>(G, g) \<in> set (file_pairs ?M).
        path_of (os_path_join G g) = path_of (os_path_join folder f) \<longrightarrow> G = folder \<and> g = f"
      using separate_file_unique[OF sep pair] by blast
    from absent_file[OF c(2) c(3) assms(4) f here absent
        separate_file_leads[OF sep assms(4) f] uniq]
    show ?thesis .
  qed
  from a b show ?thesis
    by (simp add: c(1) placeholder_def)
qed

theorem repair_reports_and_creates_witness:
  "AUTO_FIX (loaded True config_tree)
   \<and> (\<exists>missing s'. check_branch quiet_shell ''main'' (loaded True config_tree) = (Inr missing, s')
        \<and> missing_folder ''api'' \<in> set missing
        \<and> worktree s' [''api''] = Some Dir
        \<and> missing_file ''config/settings.py'' \<in> set missing
        \<and> worktree s' [''config'', ''settings.py'']
            = Some (File (''# Auto-generated placeholder for settings.py'' @ [newline])))"
proof -
  let ?s = "loaded True config_tree"
  have on: "AUTO_FIX ?s" by (simp add: loaded_def)
  from returns_Inr[OF config_tree_returns(1)] obtain missing where
    m: "check_branch quiet_shell ''main'' ?s = (Inr missing, snd (check_branch quiet_shell ''main'' ?s))"
    by blast
  let ?s' = "snd (check_branch quiet_shell ''main'' ?s)"
  from repair_reports_and_creates[OF loaded_built on m loaded_items(2)] config_tree_paths(2)
  have api: "missing_folder ''api'' \<in> set missing \<and> worktree ?s' (path_of ''api'') = Some Dir"
    by blast
  from repair_reports_and_creates[OF loaded_built on m loaded_items(3)]
    config_tree_paths(3) config_tree_paths(4)
  have "missing_file (os_path_join ''config'' ''settings.py'') \<in> set missing
     \<and> worktree ?s' (path_of (os_path_join ''config'' ''settings.py''))
         = Some (File (''# Auto-generated placeholder for '' @ ''settings.py'' @ [newline]))"
    by simp
  then have settings: "missing_file ''config/settings.py'' \<in> set missing
     \<and> worktree ?s' [''config'', ''settings.py'']
         = Some (File (''# Auto-generated placeholder for settings.py'' @ [newline]))"
    by (simp add: os_path_join_def path_of_def)
  from api have api': "missing_folder ''api'' \<in> set missing \<and> worktree ?s' [''api''] = Some Dir"
    by (simp add: path_of_def)
  from on m api' settings show ?thesis by blast
qed

subsection \<open>The names that are checked out and reported\<close>

lemma dict_set_keys: "fst ` set (dict_set d key v) = insert key (fst ` set d)"
  by (induction d key v rule: dict_set.induct) auto

lemma named_Cons:
  "\<forall>(x, k) \<in> set xs. \<exists>b \<in> set bs. x = f b \<Longrightarrow>
   \<forall>(x, k) \<in> set ((f b, n) # xs). \<exists>b' \<in> set (b # bs). x = f b'"
  by auto

lemma named_skip:
  "\<forall>(x, k) \<in> set xs. \<exists>b \<in> set bs. x = f b \<Longrightarrow>
   \<forall>(x, k) \<in> set xs. \<exists>b' \<in> set (b # bs). x = f b'"
  by auto

lemma named_drop:
  "ys = xs @ cmds \<Longrightarrow> \<forall>(x, k) \<in> set cmds. \<exists>b \<in> set bs. x = f b \<Longrightarrow> \<forall>b \<in> set bs. P b \<Longrightarrow>
   \<forall>(x, k) \<in> set (drop (length xs) ys). \<exists>b. x = f b \<and> P b"
  by fastforce

lemma keys_named:
  "fst ` set report \<subseteq> set bs \<Longrightarrow> \<forall>b \<in> set bs. P b \<Longrightarrow> \<forall>(b, m) \<in> set report. P b"
  by fastforce

lemma audit_branches_names:
  assumes f: "f = (\<lambda>b. ''git checkout '' @ b)"
    and "audit_branches sh branches report s = (r, s')"
  shows "(\<exists>cmds. invocations s' = invocations s @ cmds
      \<and> (\<forall>(cmd, n) \<in> set cmds. \<exists>b \<in> set branches. cmd = f b))
   \<and> (\<forall>report'. r = Inr report' \<longrightarrow> fst ` set report' \<subseteq> fst ` set report \<union> set branches)"
  using assms(2)
proof (induction branches arbitrary: report s)
  case Nil
  then have "invocations s' = invocations s @ []
      \<and> (\<forall>(cmd, n) \<in> set ([] :: (string \<times> nat) list). \<exists>b \<in> set []. cmd = f b)"
    and "\<forall>report'. r = Inr report' \<longrightarrow> fst ` set report' \<subseteq> fst ` set report \<union> set []"
    by auto
  then show ?case by blast
next
  case (Cons b bs)
  show ?case
  proof (cases "b = []")
    case True
    with Cons.prems have "audit_branches sh bs report s = (r, s')" by simp
    from Cons.IH[OF this] obtain cmds where
      cmds: "invocations s' = invocations s @ cmds"
        "\<forall>(cmd, n) \<in> set cmds. \<exists>b \<in> set bs. cmd = f b"
      and keys: "\<forall>report'. r = Inr report' \<longrightarrow> fst ` set report' \<subseteq> fst ` set report \<union> set bs"
      by blast
    from cmds(1) named_skip[OF cmds(2), of b]
    have "\<exists>cmds. invocations s' = invocations s @ cmds
        \<and> (\<forall>(cmd, n) \<in> set cmds. \<exists>b' \<in> set (b # bs). cmd = f b')"
      by blast
    moreover from keys have "\<forall>report'. r = Inr report' \<longrightarrow>
          fst ` set report' \<subseteq> fst ` set report \<union> set (b # bs)"
      by auto
    ultimately show ?thesis by (rule conjI)
  next
    case False
    obtain r1 s1 where c: "check_branch sh b s = (r1, s1)"
      by (cases "check_branch sh b s")
    from check_branch_trace[OF c] obtain n where
      n: "invocations s1 = invocations s @ [(f b, n)]"
      unfolding f by blast
    show ?thesis
    proof (cases r1)
      case (Inl e)
      with Cons.prems False c have rs: "r = Inl e" "s' = s1" by simp_all
      have "invocations s' = invocations s @ [(f b, n)]"
        using n rs by simp
      moreover have "\<forall>(cmd, n) \<in> set [(f b, n)]. \<exists>b' \<in> set (b # bs). cmd = f b'"
        by simp
      ultimately have "\<exists>cmds. invocations s' = invocations s @ cmds
        \<and> (\<forall>(cmd, n) \<in> set cmds. \<exists>b' \<in> set (b # bs). cmd = f b')"
        by blast
      with rs show ?thesis by simp
    next
      case (Inr m)
      with Cons.prems False c
      have rest: "audit_branches sh bs (dict_set report b m) s1 = (r, s')" by simp
      from Cons.IH[OF rest] obtain cmds where
        cmds: "invocations s' = invocations s1 @ cmds"
          "\<forall>(cmd, n) \<in> set cmds. \<exists>b \<in> set bs. cmd = f b"
        and keys: "\<forall>report'. r = Inr report' \<longrightarrow>
          fst ` set report' \<subseteq> fst ` set (dict_set report b m) \<union> set bs"
        by blast
      have "invocations s' = invocations s @ ((f b, n) # cmds)"
        using cmds(1) n by simp
      with named_Cons[OF cmds(2), of b n]
      have "\<exists>cmds. invocations s' = invocations s @ cmds
        \<and> (\<forall>(cmd, n) \<in> set cmds. \<exists>b' \<in> set (b # bs). cmd = f b')"
        by blast
      moreover from keys have "\<forall>report'. r = Inr report' \<longrightarrow>
          fst ` set report' \<subseteq> fst ` set report \<union> set (b # bs)"
        unfolding dict_set_keys by auto
      ultimately show ?thesis by (rule conjI)
    qed
  qed
qed

lemma branch_names_no_star: "b \<in> set (branch_names out) \<Longrightarrow> CHR ''*'' \<notin> set b"
  unfolding branch_names_def using strip_subset remove_stars_no_star by fastforce

text \<open>
  Claim C10. Every asterisk of a listing line is deleted, wherever it stands: no name
  that the enumerator returns contains one, so that none of the checkouts that the loop
  over these names runs and no key of the report that it builds contains one. A line
  \<^verbatim>\<open>  fix*me*\<close> gives the name \<^verbatim>\<open>fixme\<close>.
\<close>

theorem asterisks_removed:
  assumes "list_branches sh s = (Inr branches, s1)"
    and "audit_branches sh branches [] s1 = (r, s2)"
  shows "(\<forall>b \<in> set branches. CHR ''*'' \<notin> set b)
    \<and> (\<forall>(cmd, n) \<in> set (drop (length (invocations s1)) (invocations s2)).
          \<exists>b. cmd = ''git checkout '' @ b \<and> CHR ''*'' \<notin> set b)
    \<and> (\<forall>report. r = Inr report \<longrightarrow> (\<forall>(b, missing) \<in> set report. CHR ''*'' \<notin> set b))
    \<and> branch_names ''  fix*me*'' = [''fixme'']"
proof -
  define f where "f = (\<lambda>b. ''git checkout '' @ b)"
  from assms(1) obtain out where "branches = branch_names out"
    by (auto simp: list_branches_def split: prod.splits sum.splits)
  then have names: "\<forall>b \<in> set branches. CHR ''*'' \<notin> set b"
    using branch_names_no_star by blast
  from audit_branches_names[OF f_def assms(2)] obtain cmds where
    cmds: "invocations s2 = invocations s1 @ cmds"
      "\<forall>(cmd, n) \<in> set cmds. \<exists>b \<in> set branches. cmd = f b"
    and keys: "\<forall>report. r = Inr report \<longrightarrow> fst ` set report \<subseteq> set branches"
    by auto
  have "\<forall>(cmd, n) \<in> set (drop (length (invocations s1)) (invocations s2)).
          \<exists>b. cmd = f b \<and> CHR ''*'' \<notin> set b"
    by (rule named_drop[OF cmds names])
  then have checkouts: "\<forall>(cmd, n) \<in> set (drop (length (invocations s1)) (invocations s2)).
          \<exists>b. cmd = ''git checkout '' @ b \<and> CHR ''*'' \<notin> set b"
    unfolding f_def .
  have report: "\<forall>report. r = Inr report \<longrightarrow>
      (\<forall>(b, missing) \<in> set report. CHR ''*'' \<notin> set b)"
    using keys keys_named[OF _ names] by blast
  have example: "branch_names ''  fix*me*'' = [''fixme'']"
    by (simp add: branch_names_def newline_def remove_stars_def strip_def isspace_def)
  show ?thesis
    by (rule conjI[OF names conjI[OF checkouts conjI[OF report example]]])
qed

theorem asterisks_removed_witness:
  "list_branches quiet_shell (loaded False config_tree) =
     (Inr [''main'', ''feature-x''],
      (loaded False config_tree)\<lparr>invocations := [(''git branch -a'', 0)]\<rparr>)
   \<and> list_all (\<lambda>b. CHR ''*'' \<notin> set b) [''main'', ''feature-x'']
   \<and> list_all (\<lambda>(cmd, n). \<exists>b. cmd = ''git checkout '' @ b \<and> CHR ''*'' \<notin> set b)
        (drop 1 (invocations (snd (audit_branches quiet_shell [''main'', ''feature-x''] []
           ((loaded False config_tree)\<lparr>invocations := [(''git branch -a'', 0)]\<rparr>)))))"
proof -
  let ?s1 = "(loaded False config_tree)\<lparr>invocations := [(''git branch -a'', 0)]\<rparr>"
  let ?a = "audit_branches quiet_shell [''main'', ''feature-x''] [] ?s1"
  have h1: "list_branches quiet_shell (loaded False config_tree) = (Inr [''main'', ''feature-x''], ?s1)"
    by (simp add: list_branches_def run_def quiet_shell_def branch_names_listing loaded_def)
  have h2: "?a = (fst ?a, snd ?a)"
    by simp
  have len: "length (invocations ?s1) = 1"
    by simp
  from asterisks_removed[OF h1 h2] h1 show ?thesis
    unfolding len list_all_iff by blast
qed

end
